theory Spec2Isabelle
  imports
    Complex_Main
    "HOL-Library.Sublist"
    "HOL-Library.Char_ord"
    "HOL-Library.List_Lexorder"
    "HOL-Library.Product_Lexorder"
    "HOL-Library.Multiset"
begin

section \<open>LiteFinPad: expense analytics and description history\<close>

text \<open>
  A shallow embedding of \<^verbatim>\<open>analytics.py\<close> (class \<^verbatim>\<open>ExpenseAnalytics\<close>),
  of \<^verbatim>\<open>DateUtils.parse_date\<close> from \<^verbatim>\<open>date_utils.py\<close> and of
  \<^verbatim>\<open>DescriptionHistory.add_or_update\<close> from \<^verbatim>\<open>description_autocomplete.py\<close>.

  Conventions of the embedding:
  \<^item> Python exceptions that leave a function are values \<open>Inl e\<close> of a sum type;
  \<^item> a Python number is an unbounded \<^verbatim>\<open>int\<close> or a \<^verbatim>\<open>float\<close>; a finite float is the real
    number it stands for, of magnitude at most the largest double, so that overflow to an
    infinity, NaN and the OverflowError of a too large \<^verbatim>\<open>int\<close> are in the model, and the
    rounding of binary floating point and the sign of zero are not;
  \<^item> a Python \<^verbatim>\<open>str\<close> is a \<open>string\<close> of 8-bit characters (ASCII, or UTF-8 bytes for the
    three indicator symbols);
  \<^item> the wall clock (\<^verbatim>\<open>datetime.now()\<close>) and the file system are fields of an explicit
    environment that every function reading them receives;
  \<^item> a leading underscore of a Python name is dropped (\<^verbatim>\<open>_filter_past_expenses\<close> is
    \<open>filter_past_expenses\<close>).
\<close>

subsection \<open>Calendar dates (\<^verbatim>\<open>datetime\<close>, \<^verbatim>\<open>timedelta\<close>, \<^verbatim>\<open>calendar\<close>)\<close>

datatype error = ValueError | OverflowError | ZeroDivisionError

text \<open>
  A \<^verbatim>\<open>datetime\<close>. Only the calendar fields are kept: every comparison of the program goes
  through \<^verbatim>\<open>.date()\<close>, and the only subtraction of two datetimes
  (\<^verbatim>\<open>current_date - week_start\<close>) is between values with the same time of day.
\<close>

record datetime =
  year :: int
  month :: int
  day :: int

definition is_leap :: "int \<Rightarrow> bool" where
  "is_leap y = (y mod 4 = 0 \<and> (y mod 100 \<noteq> 0 \<or> y mod 400 = 0))"

text \<open>\<^verbatim>\<open>calendar.monthrange(y, m)[1]\<close>.\<close>

definition days_in_month :: "int \<Rightarrow> int \<Rightarrow> int" where
  "days_in_month y m =
     (if m = 2 then (if is_leap y then 29 else 28)
      else if m = 4 \<or> m = 6 \<or> m = 9 \<or> m = 11 then 30
      else 31)"

definition valid_ymd :: "int \<Rightarrow> int \<Rightarrow> int \<Rightarrow> bool" where
  "valid_ymd y m d =
     (1 \<le> y \<and> y \<le> 9999 \<and> 1 \<le> m \<and> m \<le> 12 \<and> 1 \<le> d \<and> d \<le> days_in_month y m)"

text \<open>The values a \<^verbatim>\<open>datetime\<close> object can hold (MINYEAR = 1, MAXYEAR = 9999).\<close>

definition valid_datetime :: "datetime \<Rightarrow> bool" where
  "valid_datetime dt = valid_ymd (year dt) (month dt) (day dt)"

text \<open>\<^verbatim>\<open>datetime(y, m, d)\<close> and \<^verbatim>\<open>dt.replace(year=y, month=m, day=d)\<close>: ValueError out of range.\<close>

definition make_datetime :: "int \<Rightarrow> int \<Rightarrow> int \<Rightarrow> error + datetime" where
  "make_datetime y m d =
     (if valid_ymd y m d then Inr \<lparr>year = y, month = m, day = d\<rparr> else Inl ValueError)"

definition days_before_year :: "int \<Rightarrow> int" where
  "days_before_year y = (y - 1) * 365 + (y - 1) div 4 - (y - 1) div 100 + (y - 1) div 400"

text \<open>The number of days of the year \<open>y\<close> before the first day of its month \<open>m\<close>.\<close>

definition days_before_month :: "int \<Rightarrow> int \<Rightarrow> int" where
  "days_before_month y m =
     [0, 0, 31, 59, 90, 120, 151, 181, 212, 243, 273, 304, 334] ! nat m
       + (if 2 < m \<and> is_leap y then 1 else 0)"

text \<open>\<^verbatim>\<open>dt.toordinal()\<close>: 0001-01-01 is day 1.\<close>

definition toordinal :: "datetime \<Rightarrow> int" where
  "toordinal dt = days_before_year (year dt) + days_before_month (year dt) (month dt) + day dt"

text \<open>\<^verbatim>\<open>dt.weekday()\<close>: Monday is 0, Sunday is 6.\<close>

definition weekday :: "datetime \<Rightarrow> int" where
  "weekday dt = (toordinal dt + 6) mod 7"

text \<open>
  \<^verbatim>\<open>dt - timedelta(days=1)\<close> and \<^verbatim>\<open>dt + timedelta(days=1)\<close>; OverflowError when the
  result would leave the years 1 to 9999.
\<close>

definition prev_day :: "datetime \<Rightarrow> error + datetime" where
  "prev_day dt =
     (if 1 < day dt then Inr (dt\<lparr>day := day dt - 1\<rparr>)
      else if 1 < month dt then
        Inr (dt\<lparr>month := month dt - 1, day := days_in_month (year dt) (month dt - 1)\<rparr>)
      else if 1 < year dt then Inr \<lparr>year = year dt - 1, month = 12, day = 31\<rparr>
      else Inl OverflowError)"

definition next_day :: "datetime \<Rightarrow> error + datetime" where
  "next_day dt =
     (if day dt < days_in_month (year dt) (month dt) then Inr (dt\<lparr>day := day dt + 1\<rparr>)
      else if month dt < 12 then Inr (dt\<lparr>month := month dt + 1, day := 1\<rparr>)
      else if year dt < 9999 then Inr \<lparr>year = year dt + 1, month = 1, day = 1\<rparr>
      else Inl OverflowError)"

text \<open>\<^verbatim>\<open>dt - timedelta(days=n)\<close> and \<^verbatim>\<open>dt + timedelta(days=n)\<close> for \<open>n \<ge> 0\<close>.\<close>

fun minus_days :: "datetime \<Rightarrow> nat \<Rightarrow> error + datetime" where
  "minus_days dt 0 = Inr dt"
| "minus_days dt (Suc n) = (case prev_day dt of Inl e \<Rightarrow> Inl e | Inr dt' \<Rightarrow> minus_days dt' n)"

fun plus_days :: "datetime \<Rightarrow> nat \<Rightarrow> error + datetime" where
  "plus_days dt 0 = Inr dt"
| "plus_days dt (Suc n) = (case next_day dt of Inl e \<Rightarrow> Inl e | Inr dt' \<Rightarrow> plus_days dt' n)"

text \<open>Comparison of \<^verbatim>\<open>date\<close> objects: lexicographic on (year, month, day).\<close>

definition date_lt :: "datetime \<Rightarrow> datetime \<Rightarrow> bool" where
  "date_lt a b =
     (year a < year b \<or> (year a = year b \<and>
        (month a < month b \<or> (month a = month b \<and> day a < day b))))"

definition date_le :: "datetime \<Rightarrow> datetime \<Rightarrow> bool" where
  "date_le a b = (\<not> date_lt b a)"

subsection \<open>\<^verbatim>\<open>DateUtils.parse_date\<close>\<close>

definition is_digit :: "char \<Rightarrow> bool" where
  "is_digit c = (48 \<le> (of_char c :: nat) \<and> (of_char c :: nat) \<le> 57)"

definition digit_val :: "char \<Rightarrow> int" where
  "digit_val c = int (of_char c) - 48"

text \<open>\<^verbatim>\<open>int(s)\<close> on a string of decimal digits.\<close>

definition int_of_digits :: "string \<Rightarrow> int" where
  "int_of_digits s = foldl (\<lambda>acc c. 10 * acc + digit_val c) 0 s"

text \<open>\<^verbatim>\<open>s.split(sep)\<close> for a one-character separator.\<close>

fun split_on :: "char \<Rightarrow> string \<Rightarrow> string list" where
  "split_on sep [] = [[]]"
| "split_on sep (c # cs) =
     (if c = sep then [] # split_on sep cs
      else (case split_on sep cs of [] \<Rightarrow> [[c]] | w # ws \<Rightarrow> (c # w) # ws))"

text \<open>
  The fields \<^verbatim>\<open>strptime\<close> accepts for the directives of the format: \<^verbatim>\<open>%Y\<close> is four
  digits, \<^verbatim>\<open>%m\<close> is \<^verbatim>\<open>1[0-2]|0[1-9]|[1-9]\<close>, \<^verbatim>\<open>%d\<close> is
  \<^verbatim>\<open>3[01]|[12]\d|0[1-9]|[1-9]| [1-9]\<close>.
\<close>

definition year_field :: "string \<Rightarrow> bool" where
  "year_field s = (length s = 4 \<and> list_all is_digit s)"

fun month_field :: "string \<Rightarrow> int option" where
  "month_field [a] = (if is_digit a \<and> a \<noteq> CHR ''0'' then Some (digit_val a) else None)"
| "month_field [a, b] =
     (if a = CHR ''1'' \<and> (b = CHR ''0'' \<or> b = CHR ''1'' \<or> b = CHR ''2'') then Some (10 + digit_val b)
      else if a = CHR ''0'' \<and> is_digit b \<and> b \<noteq> CHR ''0'' then Some (digit_val b)
      else None)"
| "month_field s = None"

fun day_field :: "string \<Rightarrow> int option" where
  "day_field [a] = (if is_digit a \<and> a \<noteq> CHR ''0'' then Some (digit_val a) else None)"
| "day_field [a, b] =
     (if a = CHR ''3'' \<and> (b = CHR ''0'' \<or> b = CHR ''1'') then Some (30 + digit_val b)
      else if (a = CHR ''1'' \<or> a = CHR ''2'') \<and> is_digit b then Some (10 * digit_val a + digit_val b)
      else if (a = CHR ''0'' \<or> a = CHR '' '') \<and> is_digit b \<and> b \<noteq> CHR ''0'' then Some (digit_val b)
      else None)"
| "day_field s = None"

text \<open>\<^verbatim>\<open>datetime.strptime(s, "%Y-%m-%d")\<close>; every failure is a ValueError.\<close>

definition strptime_ymd :: "string \<Rightarrow> error + datetime" where
  "strptime_ymd s =
     (case split_on CHR ''-'' s of
        [y, m, d] \<Rightarrow>
          (if year_field y then
             (case month_field m of
                None \<Rightarrow> Inl ValueError
              | Some mm \<Rightarrow>
                 (case day_field d of
                    None \<Rightarrow> Inl ValueError
                  | Some dd \<Rightarrow> make_datetime (int_of_digits y) mm dd))
           else Inl ValueError)
      | _ \<Rightarrow> Inl ValueError)"

text \<open>\<^verbatim>\<open>DateUtils.parse_date\<close>: the exception becomes \<^verbatim>\<open>None\<close>.\<close>

definition parse_date :: "string \<Rightarrow> datetime option" where
  "parse_date date_str = (case strptime_ymd date_str of Inr dt \<Rightarrow> Some dt | Inl e \<Rightarrow> None)"

subsection \<open>Python numbers\<close>

text \<open>The largest finite double, \<^verbatim>\<open>sys.float_info.max\<close>.\<close>

definition max_double :: real where
  "max_double = (2 - 1 / 2 ^ 52) * 2 ^ 1023"

datatype pyfloat = Finite real | PosInf | NegInf | NaN

text \<open>
  The float that an arithmetic operation with the exact result \<open>r\<close> returns. Rounding is
  not modelled, so the narrow band just above the largest double, which IEEE 754 still
  rounds down to it, counts as overflow; the same holds for the conversions of an \<^verbatim>\<open>int\<close>.
\<close>

definition mk_float :: "real \<Rightarrow> pyfloat" where
  "mk_float r =
     (if max_double < r then PosInf else if r < - max_double then NegInf else Finite r)"

text \<open>\<^verbatim>\<open>float(i)\<close>, also the implicit conversion of an \<^verbatim>\<open>int\<close> operand next to a float.\<close>

definition float_of_int :: "int \<Rightarrow> error + pyfloat" where
  "float_of_int i =
     (if \<bar>real_of_int i\<bar> \<le> max_double then Inr (Finite (real_of_int i))
      else Inl OverflowError)"

fun negative :: "pyfloat \<Rightarrow> bool" where
  "negative (Finite r) = (r < 0)"
| "negative NegInf = True"
| "negative x = False"

fun fneg :: "pyfloat \<Rightarrow> pyfloat" where
  "fneg (Finite r) = Finite (- r)"
| "fneg PosInf = NegInf"
| "fneg NegInf = PosInf"
| "fneg NaN = NaN"

fun fabs :: "pyfloat \<Rightarrow> pyfloat" where
  "fabs (Finite r) = Finite \<bar>r\<bar>"
| "fabs PosInf = PosInf"
| "fabs NegInf = PosInf"
| "fabs NaN = NaN"

fun fadd :: "pyfloat \<Rightarrow> pyfloat \<Rightarrow> pyfloat" where
  "fadd NaN y = NaN"
| "fadd x NaN = NaN"
| "fadd (Finite a) (Finite b) = mk_float (a + b)"
| "fadd PosInf NegInf = NaN"
| "fadd NegInf PosInf = NaN"
| "fadd PosInf y = PosInf"
| "fadd NegInf y = NegInf"
| "fadd x PosInf = PosInf"
| "fadd x NegInf = NegInf"

fun fmul :: "pyfloat \<Rightarrow> pyfloat \<Rightarrow> pyfloat" where
  "fmul NaN y = NaN"
| "fmul x NaN = NaN"
| "fmul (Finite a) (Finite b) = mk_float (a * b)"
| "fmul x y =
     (if x = Finite 0 \<or> y = Finite 0 then NaN
      else if negative x = negative y then PosInf else NegInf)"

text \<open>Float division: a zero divisor raises, whatever the dividend is.\<close>

fun fdiv :: "pyfloat \<Rightarrow> pyfloat \<Rightarrow> error + pyfloat" where
  "fdiv x (Finite b) =
     (if b = 0 then Inl ZeroDivisionError
      else (case x of
              Finite a \<Rightarrow> Inr (mk_float (a / b))
            | NaN \<Rightarrow> Inr NaN
            | z \<Rightarrow> Inr (if negative z = (b < 0) then PosInf else NegInf)))"
| "fdiv x NaN = Inr NaN"
| "fdiv (Finite a) y = Inr (Finite 0)"
| "fdiv x y = Inr NaN"

text \<open>\<^verbatim>\<open>x < y\<close> on floats: every comparison with NaN is false.\<close>

fun flt :: "pyfloat \<Rightarrow> pyfloat \<Rightarrow> bool" where
  "flt NaN y = False"
| "flt x NaN = False"
| "flt (Finite a) (Finite b) = (a < b)"
| "flt PosInf y = False"
| "flt x NegInf = False"
| "flt x y = True"

datatype number = PyInt int | PyFloat pyfloat

text \<open>
  The arithmetic of \<^verbatim>\<open>int\<close> and \<^verbatim>\<open>float\<close> operands: two ints give an exact int (a float for
  \<^verbatim>\<open>/\<close>), and an int next to a float is converted first, which raises OverflowError when it
  is too large.
\<close>

fun num_add :: "number \<Rightarrow> number \<Rightarrow> error + number" where
  "num_add (PyInt a) (PyInt b) = Inr (PyInt (a + b))"
| "num_add (PyInt a) (PyFloat y) =
     (case float_of_int a of Inl e \<Rightarrow> Inl e | Inr x \<Rightarrow> Inr (PyFloat (fadd x y)))"
| "num_add (PyFloat x) (PyInt b) =
     (case float_of_int b of Inl e \<Rightarrow> Inl e | Inr y \<Rightarrow> Inr (PyFloat (fadd x y)))"
| "num_add (PyFloat x) (PyFloat y) = Inr (PyFloat (fadd x y))"

fun num_sub :: "number \<Rightarrow> number \<Rightarrow> error + number" where
  "num_sub (PyInt a) (PyInt b) = Inr (PyInt (a - b))"
| "num_sub (PyInt a) (PyFloat y) =
     (case float_of_int a of Inl e \<Rightarrow> Inl e | Inr x \<Rightarrow> Inr (PyFloat (fadd x (fneg y))))"
| "num_sub (PyFloat x) (PyInt b) =
     (case float_of_int b of Inl e \<Rightarrow> Inl e | Inr y \<Rightarrow> Inr (PyFloat (fadd x (fneg y))))"
| "num_sub (PyFloat x) (PyFloat y) = Inr (PyFloat (fadd x (fneg y)))"

fun num_mul :: "number \<Rightarrow> number \<Rightarrow> error + number" where
  "num_mul (PyInt a) (PyInt b) = Inr (PyInt (a * b))"
| "num_mul (PyInt a) (PyFloat y) =
     (case float_of_int a of Inl e \<Rightarrow> Inl e | Inr x \<Rightarrow> Inr (PyFloat (fmul x y)))"
| "num_mul (PyFloat x) (PyInt b) =
     (case float_of_int b of Inl e \<Rightarrow> Inl e | Inr y \<Rightarrow> Inr (PyFloat (fmul x y)))"
| "num_mul (PyFloat x) (PyFloat y) = Inr (PyFloat (fmul x y))"

text \<open>
  True division \<^verbatim>\<open>a / b\<close>. Two ints are divided exactly and the quotient is converted, which
  raises OverflowError when it is beyond the doubles.
\<close>

fun num_truediv :: "number \<Rightarrow> number \<Rightarrow> error + number" where
  "num_truediv (PyInt a) (PyInt b) =
     (if b = 0 then Inl ZeroDivisionError
      else if \<bar>real_of_int a / real_of_int b\<bar> \<le> max_double
      then Inr (PyFloat (Finite (real_of_int a / real_of_int b)))
      else Inl OverflowError)"
| "num_truediv (PyInt a) (PyFloat y) =
     (case float_of_int a of
        Inl e \<Rightarrow> Inl e
      | Inr x \<Rightarrow> (case fdiv x y of Inl e \<Rightarrow> Inl e | Inr z \<Rightarrow> Inr (PyFloat z)))"
| "num_truediv (PyFloat x) (PyInt b) =
     (case float_of_int b of
        Inl e \<Rightarrow> Inl e
      | Inr y \<Rightarrow> (case fdiv x y of Inl e \<Rightarrow> Inl e | Inr z \<Rightarrow> Inr (PyFloat z)))"
| "num_truediv (PyFloat x) (PyFloat y) =
     (case fdiv x y of Inl e \<Rightarrow> Inl e | Inr z \<Rightarrow> Inr (PyFloat z))"

fun num_abs :: "number \<Rightarrow> number" where
  "num_abs (PyInt a) = PyInt \<bar>a\<bar>"
| "num_abs (PyFloat x) = PyFloat (fabs x)"

text \<open>\<^verbatim>\<open>x < y\<close>: an int and a float are compared by their exact values, without conversion.\<close>

fun num_lt :: "number \<Rightarrow> number \<Rightarrow> bool" where
  "num_lt (PyInt a) (PyInt b) = (a < b)"
| "num_lt (PyInt a) (PyFloat y) = flt (Finite (real_of_int a)) y"
| "num_lt (PyFloat x) (PyInt b) = flt x (Finite (real_of_int b))"
| "num_lt (PyFloat x) (PyFloat y) = flt x y"

text \<open>\<^verbatim>\<open>sum(xs)\<close> from the start value \<open>acc\<close> (the int 0), left to right.\<close>

fun py_sum :: "number \<Rightarrow> number list \<Rightarrow> error + number" where
  "py_sum acc [] = Inr acc"
| "py_sum acc (x # xs) = (case num_add acc x of Inl e \<Rightarrow> Inl e | Inr acc' \<Rightarrow> py_sum acc' xs)"

text \<open>
  \<^verbatim>\<open>sorted(xs)\<close> on numbers: a stable sort by \<^verbatim>\<open><\<close>. On a list without NaN it is the list
  in ascending order; with NaN, \<^verbatim>\<open><\<close> is no order and the result of the library's sort
  is not specified.
\<close>

fun insert_number :: "number \<Rightarrow> number list \<Rightarrow> number list" where
  "insert_number x [] = [x]"
| "insert_number x (y # ys) = (if num_lt y x then y # insert_number x ys else x # y # ys)"

definition sorted_numbers :: "number list \<Rightarrow> number list" where
  "sorted_numbers xs = foldr insert_number xs []"

subsection \<open>Expense records and the environment\<close>

record expense =
  date :: string
  amount :: number
  description :: string

text \<open>
  JSON values as \<^verbatim>\<open>json.load\<close> returns them: a number without fraction or exponent is
  an \<^verbatim>\<open>int\<close>, any other number a \<^verbatim>\<open>float\<close> (the literals \<^verbatim>\<open>Infinity\<close> and \<^verbatim>\<open>NaN\<close> and
  numbers beyond the doubles included).
\<close>

datatype json =
    JNull
  | JBool bool
  | JInt int
  | JFloat pyfloat
  | JStr string
  | JList "json list"
  | JDict "(string \<times> json) list"

text \<open>
  A path that exists: \<open>Unreadable\<close> when opening or reading it fails, \<open>Malformed\<close> when its
  content is not JSON, \<open>Parsed v\<close> when \<^verbatim>\<open>json.load\<close> returns \<open>v\<close>.
\<close>

datatype file_state = Unreadable | Malformed | Parsed json

record env =
  now :: datetime
  files :: "string \<Rightarrow> file_state option"

subsection \<open>Expense filters\<close>

text \<open>
  The loop of \<^verbatim>\<open>_filter_expenses_by_date_range\<close>; \<open>filtered\<close> is the list built so far,
  each \<^verbatim>\<open>continue\<close> is a recursive call that leaves it unchanged.
\<close>

fun filter_loop ::
  "datetime option \<Rightarrow> datetime option \<Rightarrow> datetime \<Rightarrow> expense list \<Rightarrow> expense list \<Rightarrow> expense list"
where
  "filter_loop start_date end_date current_date filtered [] = filtered"
| "filter_loop start_date end_date current_date filtered (expense # rest) =
     (case parse_date (date expense) of
        None \<Rightarrow> filter_loop start_date end_date current_date filtered rest
      | Some expense_date \<Rightarrow>
          if (case start_date of None \<Rightarrow> False | Some s \<Rightarrow> date_lt expense_date s)
          then filter_loop start_date end_date current_date filtered rest
          else if (case end_date of
                     Some e \<Rightarrow> date_lt e expense_date
                   | None \<Rightarrow> date_lt current_date expense_date)
          then filter_loop start_date end_date current_date filtered rest
          else filter_loop start_date end_date current_date (filtered @ [expense]) rest)"

definition filter_expenses_by_date_range ::
  "env \<Rightarrow> expense list \<Rightarrow> datetime option \<Rightarrow> datetime option \<Rightarrow> datetime option \<Rightarrow> expense list"
where
  "filter_expenses_by_date_range e expenses start_date end_date current_date =
     (let current_date = (case current_date of None \<Rightarrow> now e | Some d \<Rightarrow> d)
      in filter_loop start_date end_date current_date [] expenses)"

definition filter_expenses_by_month ::
  "env \<Rightarrow> expense list \<Rightarrow> datetime \<Rightarrow> bool \<Rightarrow> error + expense list"
where
  "filter_expenses_by_month e expenses month_date exclude_future =
     (case make_datetime (year month_date) (month month_date) 1 of
        Inl err \<Rightarrow> Inl err
      | Inr month_start \<Rightarrow>
         (case (if month month_date = 12
                then (case make_datetime (year month_date + 1) 1 1 of
                        Inl err \<Rightarrow> Inl err | Inr d \<Rightarrow> minus_days d 1)
                else (case make_datetime (year month_date) (month month_date + 1) 1 of
                        Inl err \<Rightarrow> Inl err | Inr d \<Rightarrow> minus_days d 1)) of
            Inl err \<Rightarrow> Inl err
          | Inr month_end \<Rightarrow>
              let end_date = (if exclude_future then month_date else month_end)
              in Inr (filter_expenses_by_date_range e expenses
                        (Some month_start) (Some end_date) (Some month_date))))"

definition filter_expenses_by_week ::
  "env \<Rightarrow> expense list \<Rightarrow> datetime \<Rightarrow> bool \<Rightarrow> error + expense list"
where
  "filter_expenses_by_week e expenses week_date exclude_future =
     (case minus_days week_date (nat (weekday week_date)) of
        Inl err \<Rightarrow> Inl err
      | Inr week_start \<Rightarrow>
         (case plus_days week_start 6 of
            Inl err \<Rightarrow> Inl err
          | Inr week_end \<Rightarrow>
              let end_date = (if exclude_future then week_date else week_end)
              in Inr (filter_expenses_by_date_range e expenses
                        (Some week_start) (Some end_date) (Some week_date))))"

definition filter_past_expenses :: "env \<Rightarrow> expense list \<Rightarrow> datetime option \<Rightarrow> expense list" where
  "filter_past_expenses e expenses current_date =
     (let current_date = (case current_date of None \<Rightarrow> now e | Some d \<Rightarrow> d)
      in filter_expenses_by_date_range e expenses None (Some current_date) (Some current_date))"

subsection \<open>Analytics calculations\<close>

definition calculate_day_progress :: "env \<Rightarrow> datetime option \<Rightarrow> int \<times> int" where
  "calculate_day_progress e current_date =
     (let current_date = (case current_date of None \<Rightarrow> now e | Some d \<Rightarrow> d);
          current_day = day current_date;
          total_days = days_in_month (year current_date) (month current_date)
      in (current_day, total_days))"

text \<open>
  The day of a \<^verbatim>\<open>datetime\<close> is at most 31, so the float arithmetic of
  \<^verbatim>\<open>calculate_week_progress\<close> cannot overflow, and its result is given as a real number.
\<close>

definition calculate_week_progress :: "env \<Rightarrow> datetime option \<Rightarrow> real \<times> int" where
  "calculate_week_progress e current_date =
     (let current_date = (case current_date of None \<Rightarrow> now e | Some d \<Rightarrow> d);
          current_day = day current_date;
          base_week = ((current_day - 1) div 7) + 1;
          day_in_week = (current_day - 1) mod 7;
          week_decimal = real_of_int day_in_week / 10;
          precise_week = real_of_int base_week + week_decimal;
          total_days = days_in_month (year current_date) (month current_date);
          total_weeks = (total_days div 7) + (if total_days mod 7 > 0 then 1 else 0)
      in (precise_week, total_weeks))"

text \<open>
  The three averages: the sum and the division are Python's, so a total that cannot be
  converted to a float raises OverflowError and a float sum beyond the doubles is infinite.
\<close>

definition calculate_daily_average ::
  "env \<Rightarrow> expense list \<Rightarrow> datetime option \<Rightarrow> error + (number \<times> int)"
where
  "calculate_daily_average e expenses current_date =
     (if expenses = [] then Inr (PyFloat (Finite 0), 0)
      else
        let current_date = (case current_date of None \<Rightarrow> now e | Some d \<Rightarrow> d)
        in (case filter_expenses_by_month e expenses current_date True of
              Inl err \<Rightarrow> Inl err
            | Inr month_expenses \<Rightarrow>
               (case py_sum (PyInt 0) (map amount month_expenses) of
                  Inl err \<Rightarrow> Inl err
                | Inr monthly_total \<Rightarrow>
                    let days_elapsed = day current_date
                    in (case (if days_elapsed > 0
                              then num_truediv monthly_total (PyInt days_elapsed)
                              else Inr (PyInt 0)) of
                          Inl err \<Rightarrow> Inl err
                        | Inr avg_per_day \<Rightarrow> Inr (avg_per_day, days_elapsed)))))"

definition calculate_weekly_average ::
  "env \<Rightarrow> expense list \<Rightarrow> datetime option \<Rightarrow> error + (number \<times> int)"
where
  "calculate_weekly_average e expenses current_date =
     (if expenses = [] then Inr (PyFloat (Finite 0), 0)
      else
        let current_date = (case current_date of None \<Rightarrow> now e | Some d \<Rightarrow> d)
        in (case filter_expenses_by_month e expenses current_date True of
              Inl err \<Rightarrow> Inl err
            | Inr month_expenses \<Rightarrow>
               (case py_sum (PyInt 0) (map amount month_expenses) of
                  Inl err \<Rightarrow> Inl err
                | Inr monthly_total \<Rightarrow>
                    let current_day = day current_date;
                        weeks_elapsed = ((current_day - 1) div 7) + 1
                    in (case (if weeks_elapsed > 0
                              then num_truediv monthly_total (PyInt weeks_elapsed)
                              else Inr (PyInt 0)) of
                          Inl err \<Rightarrow> Inl err
                        | Inr avg_per_week \<Rightarrow> Inr (avg_per_week, weeks_elapsed)))))"

definition calculate_weekly_pace ::
  "env \<Rightarrow> expense list \<Rightarrow> datetime option \<Rightarrow> error + (number \<times> int)"
where
  "calculate_weekly_pace e expenses current_date =
     (if expenses = [] then Inr (PyFloat (Finite 0), 0)
      else
        let current_date = (case current_date of None \<Rightarrow> now e | Some d \<Rightarrow> d)
        in (case filter_expenses_by_week e expenses current_date True of
              Inl err \<Rightarrow> Inl err
            | Inr week_expenses \<Rightarrow>
               (case py_sum (PyInt 0) (map amount week_expenses) of
                  Inl err \<Rightarrow> Inl err
                | Inr weekly_total \<Rightarrow>
                   (case minus_days current_date (nat (weekday current_date)) of
                      Inl err \<Rightarrow> Inl err
                    | Inr week_start \<Rightarrow>
                        let days_elapsed = (toordinal current_date - toordinal week_start) + 1
                        in (case (if days_elapsed > 0
                                  then num_truediv weekly_total (PyInt days_elapsed)
                                  else Inr (PyInt 0)) of
                              Inl err \<Rightarrow> Inl err
                            | Inr pace_per_day \<Rightarrow> Inr (pace_per_day, days_elapsed))))))"

definition calculate_median_expense ::
  "env \<Rightarrow> expense list \<Rightarrow> datetime option \<Rightarrow> error + (number \<times> int)"
where
  "calculate_median_expense e expenses current_date =
     (let current_date = (case current_date of None \<Rightarrow> now e | Some d \<Rightarrow> d);
          past_expenses = filter_past_expenses e expenses (Some current_date)
      in if past_expenses = [] then Inr (PyFloat (Finite 0), 0)
         else
           let amounts = sorted_numbers (map amount past_expenses);
               count = length amounts
           in (case (if count mod 2 = 0
                     then (case num_add (amounts ! (count div 2 - 1)) (amounts ! (count div 2)) of
                             Inl err \<Rightarrow> Inl err
                           | Inr s \<Rightarrow> num_truediv s (PyInt 2))
                     else Inr (amounts ! (count div 2))) of
                 Inl err \<Rightarrow> Inl err
               | Inr median \<Rightarrow> Inr (median, int count)))"

text \<open>\<^verbatim>\<open>max(best :: rest, key=lambda e: e['amount'])\<close>: the first record of the largest amount.\<close>

fun max_by_amount :: "expense \<Rightarrow> expense list \<Rightarrow> expense" where
  "max_by_amount best [] = best"
| "max_by_amount best (x # xs) =
     max_by_amount (if num_lt (amount best) (amount x) then x else best) xs"

definition calculate_largest_expense ::
  "env \<Rightarrow> expense list \<Rightarrow> datetime option \<Rightarrow> number \<times> string"
where
  "calculate_largest_expense e expenses current_date =
     (let current_date = (case current_date of None \<Rightarrow> now e | Some d \<Rightarrow> d);
          past_expenses = filter_past_expenses e expenses (Some current_date)
      in (case past_expenses of
            [] \<Rightarrow> (PyFloat (Finite 0), ''No expenses'')
          | x # xs \<Rightarrow> let largest = max_by_amount x xs in (amount largest, description largest)))"

subsection \<open>String formatting (\<^verbatim>\<open>strftime\<close>, \<^verbatim>\<open>strptime\<close>, \<^verbatim>\<open>:.2f\<close>)\<close>

definition digit_char :: "nat \<Rightarrow> char" where
  "digit_char n = char_of (48 + n)"

fun show_nat :: "nat \<Rightarrow> string" where
  "show_nat n = (if n < 10 then [digit_char n] else show_nat (n div 10) @ [digit_char (n mod 10)])"

definition zfill :: "nat \<Rightarrow> string \<Rightarrow> string" where
  "zfill w s = replicate (w - length s) CHR ''0'' @ s"

definition month_names :: "string list" where
  "month_names = [''January'', ''February'', ''March'', ''April'', ''May'', ''June'', ''July'',
     ''August'', ''September'', ''October'', ''November'', ''December'']"

text \<open>
  \<^verbatim>\<open>strftime\<close> with the formats \<^verbatim>\<open>%Y-%m\<close>, \<^verbatim>\<open>%Y-%m-%d\<close> and \<^verbatim>\<open>%B %Y\<close>, in the C locale,
  with the year padded to four digits.
\<close>

definition strftime_Y :: "datetime \<Rightarrow> string" where
  "strftime_Y dt = zfill 4 (show_nat (nat (year dt)))"

definition strftime_m :: "datetime \<Rightarrow> string" where
  "strftime_m dt = zfill 2 (show_nat (nat (month dt)))"

definition strftime_d :: "datetime \<Rightarrow> string" where
  "strftime_d dt = zfill 2 (show_nat (nat (day dt)))"

definition strftime_ym :: "datetime \<Rightarrow> string" where
  "strftime_ym dt = strftime_Y dt @ ''-'' @ strftime_m dt"

definition strftime_ymd :: "datetime \<Rightarrow> string" where
  "strftime_ymd dt = strftime_Y dt @ ''-'' @ strftime_m dt @ ''-'' @ strftime_d dt"

definition strftime_BY :: "datetime \<Rightarrow> string" where
  "strftime_BY dt = month_names ! nat (month dt - 1) @ '' '' @ strftime_Y dt"

text \<open>\<^verbatim>\<open>datetime.strptime(s, "%Y-%m")\<close>: the day defaults to 1.\<close>

definition strptime_ym :: "string \<Rightarrow> error + datetime" where
  "strptime_ym s =
     (case split_on CHR ''-'' s of
        [y, m] \<Rightarrow>
          (if year_field y then
             (case month_field m of
                None \<Rightarrow> Inl ValueError
              | Some mm \<Rightarrow> make_datetime (int_of_digits y) mm 1)
           else Inl ValueError)
      | _ \<Rightarrow> Inl ValueError)"

text \<open>Rounding to the nearest integer, ties to even, as \<^verbatim>\<open>format\<close> rounds.\<close>

definition round_half_even :: "real \<Rightarrow> int" where
  "round_half_even x =
     (let f = \<lfloor>x\<rfloor>; r = x - of_int f
      in if r < 1 / 2 then f else if 1 / 2 < r then f + 1 else if even f then f else f + 1)"

text \<open>The digits of \<^verbatim>\<open>f"{x:.2f}"\<close> for a finite \<open>x\<close>.\<close>

definition format_2f :: "real \<Rightarrow> string" where
  "format_2f x =
     (let cents = nat (round_half_even (\<bar>x\<bar> * 100))
      in (if x < 0 then ''-'' else []) @ show_nat (cents div 100) @ ''.''
           @ zfill 2 (show_nat (cents mod 100)))"

text \<open>
  \<^verbatim>\<open>f"{x:.2f}"\<close> for a number: an \<^verbatim>\<open>int\<close> is converted to a float first, and the infinities
  and NaN have their names.
\<close>

fun format_float_2f :: "pyfloat \<Rightarrow> string" where
  "format_float_2f (Finite r) = format_2f r"
| "format_float_2f PosInf = ''inf''"
| "format_float_2f NegInf = ''-inf''"
| "format_float_2f NaN = ''nan''"

fun format_number_2f :: "number \<Rightarrow> error + string" where
  "format_number_2f (PyInt i) =
     (case float_of_int i of Inl e \<Rightarrow> Inl e | Inr x \<Rightarrow> Inr (format_float_2f x))"
| "format_number_2f (PyFloat x) = Inr (format_float_2f x)"

subsection \<open>\<^verbatim>\<open>calculate_monthly_trend\<close>\<close>

record indicator =
  symbol :: string
  percentage :: number
  direction :: string
  color :: string

text \<open>The UTF-8 bytes of U+2248, U+25B2 and U+25BC.\<close>

definition symbol_similar :: string where
  "symbol_similar = [char_of (0xE2 :: nat), char_of (0x89 :: nat), char_of (0x88 :: nat)]"

definition symbol_increase :: string where
  "symbol_increase = [char_of (0xE2 :: nat), char_of (0x96 :: nat), char_of (0xB2 :: nat)]"

definition symbol_decrease :: string where
  "symbol_decrease = [char_of (0xE2 :: nat), char_of (0x96 :: nat), char_of (0xBC :: nat)]"

text \<open>
  \<^verbatim>\<open>e['amount']\<close> for an element \<open>e\<close> of the loaded list, as a summand of \<^verbatim>\<open>sum\<close>:
  \<open>None\<close> is the TypeError or KeyError of a value that cannot be indexed by a string, has
  no such key, or cannot be added to a number. A \<^verbatim>\<open>bool\<close> adds as the int 0 or 1.
\<close>

fun amount_of_json :: "json \<Rightarrow> number option" where
  "amount_of_json (JDict kvs) =
     (case map_of kvs ''amount'' of
        Some (JInt i) \<Rightarrow> Some (PyInt i)
      | Some (JFloat x) \<Rightarrow> Some (PyFloat x)
      | Some (JBool b) \<Rightarrow> Some (PyInt (if b then 1 else 0))
      | _ \<Rightarrow> None)"
| "amount_of_json v = None"

text \<open>
  \<^verbatim>\<open>sum(e['amount'] for e in xs)\<close> over a list, from the start value \<open>acc\<close>; \<open>None\<close> when
  a summand or an addition raises.
\<close>

fun sum_amounts :: "number \<Rightarrow> json list \<Rightarrow> number option" where
  "sum_amounts acc [] = Some acc"
| "sum_amounts acc (x # xs) =
     (case amount_of_json x of
        None \<Rightarrow> None
      | Some a \<Rightarrow> (case num_add acc a of Inl e \<Rightarrow> None | Inr acc' \<Rightarrow> sum_amounts acc' xs))"

text \<open>
  The same sum over whatever \<^verbatim>\<open>prev_expenses\<close> is: iterating a dict yields its keys and
  iterating a string its characters (both strings, so a summand raises unless there is
  none); a number, a boolean and \<^verbatim>\<open>None\<close> are not iterable.
\<close>

fun sum_prev_expenses :: "json \<Rightarrow> number option" where
  "sum_prev_expenses (JList xs) = sum_amounts (PyInt 0) xs"
| "sum_prev_expenses (JDict kvs) = (if kvs = [] then Some (PyInt 0) else None)"
| "sum_prev_expenses (JStr s) = (if s = [] then Some (PyInt 0) else None)"
| "sum_prev_expenses v = None"

text \<open>The body of the \<^verbatim>\<open>try\<close> block; \<open>None\<close> when it raises.\<close>

definition load_prev_total :: "file_state \<Rightarrow> number option" where
  "load_prev_total f =
     (case f of
        Unreadable \<Rightarrow> None
      | Malformed \<Rightarrow> None
      | Parsed data \<Rightarrow>
          (case data of
             JList xs \<Rightarrow> sum_prev_expenses (JList xs)
           | JDict kvs \<Rightarrow>
               sum_prev_expenses (case map_of kvs ''expenses'' of None \<Rightarrow> JList [] | Some v \<Rightarrow> v)
           | _ \<Rightarrow> sum_prev_expenses (JList [])))"

text \<open>\<^verbatim>\<open>os.path.join(folder, name)\<close>.\<close>

definition path_join :: "string \<Rightarrow> string \<Rightarrow> string" where
  "path_join folder name = folder @ ''/'' @ name"

definition prev_expenses_file :: "datetime \<Rightarrow> string" where
  "prev_expenses_file prev_month_date =
     path_join (''data_'' @ strftime_ym prev_month_date) ''expenses.json''"

text \<open>The total read from the previous month's file: 0.0 unless the file exists and loads.\<close>

definition prev_total_of :: "env \<Rightarrow> datetime \<Rightarrow> number" where
  "prev_total_of e prev_month_date =
     (case files e (prev_expenses_file prev_month_date) of
        None \<Rightarrow> PyFloat (Finite 0)
      | Some f \<Rightarrow> (case load_prev_total f of None \<Rightarrow> PyFloat (Finite 0) | Some t \<Rightarrow> t))"

definition prev_month_date_of :: "env \<Rightarrow> string option \<Rightarrow> error + datetime" where
  "prev_month_date_of e viewed_month_key =
     (if viewed_month_key \<noteq> None \<and> viewed_month_key \<noteq> Some []
      then (case strptime_ym (the viewed_month_key) of
              Inl err \<Rightarrow> Inl err
            | Inr viewed_date \<Rightarrow>
               (case make_datetime (year viewed_date) (month viewed_date) 1 of
                  Inl err \<Rightarrow> Inl err
                | Inr d \<Rightarrow> minus_days d 1))
      else (case make_datetime (year (now e)) (month (now e)) 1 of
              Inl err \<Rightarrow> Inl err
            | Inr d \<Rightarrow> minus_days d 1))"

text \<open>
  The comparison indicator; the subtraction, the division and the multiplication by 100 can
  raise OverflowError for an \<^verbatim>\<open>int\<close> beyond the doubles.
\<close>

definition comparison_indicator_of :: "number option \<Rightarrow> number \<Rightarrow> error + indicator option" where
  "comparison_indicator_of current_month_total prev_total =
     (if current_month_total \<noteq> None \<and> num_lt (PyInt 0) prev_total then
        (case num_sub (the current_month_total) prev_total of
           Inl err \<Rightarrow> Inl err
         | Inr difference \<Rightarrow>
            (case num_truediv difference prev_total of
               Inl err \<Rightarrow> Inl err
             | Inr ratio \<Rightarrow>
                (case num_mul ratio (PyInt 100) of
                   Inl err \<Rightarrow> Inl err
                 | Inr scaled \<Rightarrow>
                     let percentage = num_abs scaled
                     in if num_lt percentage (PyFloat (Finite 5)) then
                          Inr (Some \<lparr>symbol = symbol_similar, percentage = percentage,
                                     direction = ''similar'', color = ''#999999''\<rparr>)
                        else if num_lt (PyInt 0) difference then
                          Inr (Some \<lparr>symbol = symbol_increase, percentage = percentage,
                                     direction = ''increase'', color = ''#C00000''\<rparr>)
                        else
                          Inr (Some \<lparr>symbol = symbol_decrease, percentage = percentage,
                                     direction = ''decrease'', color = ''#666666''\<rparr>))))
      else Inr None)"

definition calculate_monthly_trend ::
  "env \<Rightarrow> string \<Rightarrow> number option \<Rightarrow> string option
     \<Rightarrow> error + (string \<times> string \<times> indicator option)"
where
  "calculate_monthly_trend e prev_month_data_folder current_month_total viewed_month_key =
     (case prev_month_date_of e viewed_month_key of
        Inl err \<Rightarrow> Inl err
      | Inr prev_month_date \<Rightarrow>
          let prev_month_name = strftime_BY prev_month_date;
              prev_total = prev_total_of e prev_month_date
          in (case comparison_indicator_of current_month_total prev_total of
                Inl err \<Rightarrow> Inl err
              | Inr comparison_indicator \<Rightarrow>
                 (case format_number_2f prev_total of
                    Inl err \<Rightarrow> Inl err
                  | Inr formatted \<Rightarrow>
                      Inr (''$'' @ formatted, prev_month_name, comparison_indicator))))"

subsection \<open>\<^verbatim>\<open>DescriptionHistory.add_or_update\<close>\<close>

text \<open>An element of \<^verbatim>\<open>self.descriptions\<close>; the field \<open>dtext\<close> is the key \<^verbatim>\<open>'text'\<close>.\<close>

record desc_entry =
  dtext :: string
  count :: int
  last_used :: string
  last_amount :: real

text \<open>\<^verbatim>\<open>str.strip()\<close> and \<^verbatim>\<open>str.lower()\<close> on ASCII.\<close>

definition is_space :: "char \<Rightarrow> bool" where
  "is_space c = (let n = (of_char c :: nat) in (9 \<le> n \<and> n \<le> 13) \<or> (28 \<le> n \<and> n \<le> 32))"

definition strip :: "string \<Rightarrow> string" where
  "strip s = rev (dropWhile is_space (rev (dropWhile is_space s)))"

definition lower_char :: "char \<Rightarrow> char" where
  "lower_char c =
     (let n = (of_char c :: nat) in if 65 \<le> n \<and> n \<le> 90 then char_of (n + 32) else c)"

definition lower :: "string \<Rightarrow> string" where
  "lower s = map lower_char s"

text \<open>
  \<^verbatim>\<open>settings.get('AutoComplete', 'max_descriptions', 50, value_type=int)\<close>: the configured
  integer, or 50 when the option is absent or is not an integer.
\<close>

definition max_descriptions_setting :: "int option \<Rightarrow> int" where
  "max_descriptions_setting configured = (case configured of None \<Rightarrow> 50 | Some v \<Rightarrow> v)"

text \<open>The in-place update of the first entry that satisfies \<open>P\<close>.\<close>

fun update_first :: "('a \<Rightarrow> bool) \<Rightarrow> ('a \<Rightarrow> 'a) \<Rightarrow> 'a list \<Rightarrow> 'a list" where
  "update_first P f [] = []"
| "update_first P f (x # xs) = (if P x then f x # xs else x # update_first P f xs)"

text \<open>\<^verbatim>\<open>sorted(xs, key=lambda x: x['last_used'], reverse=True)\<close>: stable, descending.\<close>

definition sorted_last_used_reverse :: "desc_entry list \<Rightarrow> desc_entry list" where
  "sorted_last_used_reverse xs = rev (sort_key last_used (rev xs))"

text \<open>
  The \<^verbatim>\<open>for i in range(len(self.descriptions))\<close> loop that re-sorts each group of equal
  count: \<open>n\<close> iterations remain, \<open>i\<close> is the index, and the result is the final
  \<open>group_start\<close> with the list. The slice assignment
  \<^verbatim>\<open>descriptions[group_start:i] = sorted(descriptions[group_start:i], ...)\<close> replaces the
  slice by a list of the same length.
\<close>

fun group_loop ::
  "nat \<Rightarrow> nat \<Rightarrow> int option \<Rightarrow> nat \<Rightarrow> desc_entry list \<Rightarrow> nat \<times> desc_entry list"
where
  "group_loop 0 i current_count group_start descriptions = (group_start, descriptions)"
| "group_loop (Suc n) i current_count group_start descriptions =
     (let desc = descriptions ! i
      in (case current_count of
            None \<Rightarrow> group_loop n (Suc i) (Some (count desc)) group_start descriptions
          | Some c \<Rightarrow>
              if count desc \<noteq> c then
                group_loop n (Suc i) (Some (count desc)) i
                  (take group_start descriptions
                   @ sorted_last_used_reverse (take (i - group_start) (drop group_start descriptions))
                   @ drop i descriptions)
              else group_loop n (Suc i) current_count group_start descriptions))"

definition resort_groups :: "desc_entry list \<Rightarrow> desc_entry list" where
  "resort_groups descriptions =
     (case group_loop (length descriptions) 0 None 0 descriptions of
        (group_start, ds) \<Rightarrow> take group_start ds @ sorted_last_used_reverse (drop group_start ds))"

text \<open>\<^verbatim>\<open>xs[:m]\<close>: a negative bound counts from the end.\<close>

definition slice_to :: "'a list \<Rightarrow> int \<Rightarrow> 'a list" where
  "slice_to xs m = (if 0 \<le> m then take (nat m) xs else take (length xs - nat (- m)) xs)"

text \<open>
  \<^verbatim>\<open>add_or_update\<close> on the state \<^verbatim>\<open>self.descriptions\<close>; \<open>configured\<close> is the setting
  \<^verbatim>\<open>max_descriptions\<close>. The new list is returned; it is also what \<^verbatim>\<open>save\<close> writes.
\<close>

definition add_or_update ::
  "env \<Rightarrow> int option \<Rightarrow> desc_entry list \<Rightarrow> string \<Rightarrow> real \<Rightarrow> desc_entry list"
where
  "add_or_update e configured descriptions description' amount' =
     (let normalized = strip description'
      in if normalized = [] then descriptions
         else
           let today = strftime_ymd (now e);
               matches = (\<lambda>d. lower (dtext d) = lower normalized);
               updated =
                 (case find matches descriptions of
                    Some existing \<Rightarrow>
                      update_first matches
                        (\<lambda>d. d\<lparr>count := count d + 1, last_used := today, last_amount := amount'\<rparr>)
                        descriptions
                  | None \<Rightarrow>
                      descriptions @ [\<lparr>dtext = normalized, count = 1, last_used = today,
                                       last_amount = amount'\<rparr>]);
               sorted1 = sort_key (\<lambda>x. (- count x, last_used x)) updated;
               sorted2 = resort_groups sorted1
           in slice_to sorted2 (max_descriptions_setting configured))"

subsection \<open>Reference predicates\<close>

text \<open>
  The record of an expense list that a date window keeps: its date string parses, and the
  parsed date lies between the bounds, both inclusive (no lower bound when \<open>start_date\<close>
  is absent).
\<close>

definition kept_by_range :: "datetime option \<Rightarrow> datetime \<Rightarrow> expense \<Rightarrow> bool" where
  "kept_by_range start_date upper x =
     (case parse_date (date x) of
        None \<Rightarrow> False
      | Some d \<Rightarrow> (case start_date of None \<Rightarrow> True | Some s \<Rightarrow> date_le s d) \<and> date_le d upper)"

text \<open>The expenses dated within the calendar month of \<open>month_date\<close>.\<close>

definition in_calendar_month :: "datetime \<Rightarrow> expense \<Rightarrow> bool" where
  "in_calendar_month month_date x =
     (case parse_date (date x) of
        None \<Rightarrow> False
      | Some d \<Rightarrow> year d = year month_date \<and> month d = month month_date)"

text \<open>The expenses of that month dated on or before \<open>current_date\<close>.\<close>

definition in_month_to_date :: "datetime \<Rightarrow> expense \<Rightarrow> bool" where
  "in_month_to_date current_date x =
     (case parse_date (date x) of
        None \<Rightarrow> False
      | Some d \<Rightarrow> year d = year current_date \<and> month d = month current_date
                  \<and> day d \<le> day current_date)"

definition first_of_month :: "datetime \<Rightarrow> datetime" where
  "first_of_month dt = \<lparr>year = year dt, month = month dt, day = 1\<rparr>"

text \<open>The real number that a finite number stands for.\<close>

fun num_val :: "number \<Rightarrow> real option" where
  "num_val (PyInt i) = Some (real_of_int i)"
| "num_val (PyFloat (Finite r)) = Some r"
| "num_val (PyFloat x) = None"

definition value_of :: "number \<Rightarrow> real" where
  "value_of n = (case num_val n of Some r \<Rightarrow> r | None \<Rightarrow> 0)"

definition amount_value :: "expense \<Rightarrow> real" where
  "amount_value x = value_of (amount x)"

text \<open>The sum of the amounts of the expenses that satisfy \<open>P\<close>.\<close>

definition total_of :: "(expense \<Rightarrow> bool) \<Rightarrow> expense list \<Rightarrow> real" where
  "total_of P expenses = sum_list (map amount_value (filter P expenses))"

text \<open>
  Amounts that Python can add up without leaving the doubles: each is finite, and their
  absolute values sum to at most the largest double.
\<close>

definition amounts_in_range :: "expense list \<Rightarrow> bool" where
  "amounts_in_range expenses =
     (list_all (\<lambda>x. num_val (amount x) \<noteq> None) expenses
      \<and> sum_list (map (\<lambda>x. \<bar>amount_value x\<bar>) expenses) \<le> max_double)"

text \<open>The Monday of the week of \<open>current_date\<close>.\<close>

definition week_start_of :: "datetime \<Rightarrow> datetime" where
  "week_start_of current_date =
     (case minus_days current_date (nat (weekday current_date)) of
        Inr monday \<Rightarrow> monday
      | Inl err \<Rightarrow> current_date)"

text \<open>
  The weekly pace in the words of the specification: the sum of the amounts dated from that
  Monday through \<open>current_date\<close>, divided by the number of days from that Monday through
  \<open>current_date\<close> inclusive, together with that number of days.
\<close>

definition weekly_pace_of :: "expense list \<Rightarrow> datetime \<Rightarrow> real \<times> int" where
  "weekly_pace_of expenses current_date =
     (let monday = week_start_of current_date;
          days = toordinal current_date - toordinal monday + 1
      in (total_of (kept_by_range (Some monday) current_date) expenses / real_of_int days, days))"

text \<open>
  The order of the description history: usage count descending, ties broken by
  \<^verbatim>\<open>last_used\<close> descending.
\<close>

definition ranked_before :: "desc_entry \<Rightarrow> desc_entry \<Rightarrow> bool" where
  "ranked_before a b =
     (count b < count a \<or> (count a = count b \<and> last_used b \<le> last_used a))"

text \<open>
  The loop \<open>group_loop\<close> with its state as three lists instead of two indices: the entries
  before \<^verbatim>\<open>group_start\<close>, the entries from \<^verbatim>\<open>group_start\<close> up to the index, and the
  entries still to visit. It is used in the proofs only, where \<open>group_loop_regroup\<close> shows
  that the two agree.
\<close>

fun regroup ::
  "desc_entry list \<Rightarrow> desc_entry list \<Rightarrow> int option \<Rightarrow> desc_entry list \<Rightarrow> desc_entry list"
where
  "regroup finished grp current_count [] = finished @ sorted_last_used_reverse grp"
| "regroup finished grp current_count (x # rest) =
     (case current_count of
        None \<Rightarrow> regroup finished (grp @ [x]) (Some (count x)) rest
      | Some c \<Rightarrow>
          if count x \<noteq> c
          then regroup (finished @ sorted_last_used_reverse grp) [x] (Some (count x)) rest
          else regroup finished (grp @ [x]) current_count rest)"

subsection \<open>Example values\<close>

definition no_files :: "string \<Rightarrow> file_state option" where
  "no_files p = None"

definition example_env :: env where
  "example_env = \<lparr>now = \<lparr>year = 2025, month = 10, day = 27\<rparr>, files = no_files\<rparr>"

definition september_files :: "string \<Rightarrow> file_state option" where
  "september_files p =
     (if p = ''data_2025-09/expenses.json''
      then Some (Parsed (JList [JDict [(''amount'', JInt 50)]])) else None)"

definition september_env :: env where
  "september_env = \<lparr>now = \<lparr>year = 2025, month = 10, day = 27\<rparr>, files = september_files\<rparr>"

definition august_files :: "string \<Rightarrow> file_state option" where
  "august_files p = (if p = ''data_2025-08/expenses.json'' then Some Unreadable else None)"

definition august_env :: env where
  "august_env = \<lparr>now = \<lparr>year = 2025, month = 11, day = 2\<rparr>, files = august_files\<rparr>"

definition expense_rent :: expense where
  "expense_rent = \<lparr>date = ''2025-10-20'', amount = PyFloat (Finite 10), description = ''rent''\<rparr>"

definition expense_undated :: expense where
  "expense_undated = \<lparr>date = ''20 Oct 2025'', amount = PyInt 5, description = ''cash''\<rparr>"

definition expense_coffee :: expense where
  "expense_coffee = \<lparr>date = ''2025-10-03'', amount = PyFloat (Finite 3), description = ''coffee''\<rparr>"

definition expense_old :: expense where
  "expense_old = \<lparr>date = ''2025-09-30'', amount = PyInt 7, description = ''books''\<rparr>"

definition example_expenses :: "expense list" where
  "example_expenses = [expense_rent, expense_undated, expense_coffee, expense_old]"

definition sep_30 :: datetime where
  "sep_30 = \<lparr>year = 2025, month = 9, day = 30\<rparr>"

definition oct_1 :: datetime where
  "oct_1 = \<lparr>year = 2025, month = 10, day = 1\<rparr>"

definition oct_15 :: datetime where
  "oct_15 = \<lparr>year = 2025, month = 10, day = 15\<rparr>"

definition oct_20 :: datetime where
  "oct_20 = \<lparr>year = 2025, month = 10, day = 20\<rparr>"

definition oct_22 :: datetime where
  "oct_22 = \<lparr>year = 2025, month = 10, day = 22\<rparr>"

definition dec_15_9999 :: datetime where
  "dec_15_9999 = \<lparr>year = 9999, month = 12, day = 15\<rparr>"

definition dec_28_9999 :: datetime where
  "dec_28_9999 = \<lparr>year = 9999, month = 12, day = 28\<rparr>"

definition coffee_entry :: desc_entry where
  "coffee_entry = \<lparr>dtext = ''Coffee'', count = 2, last_used = ''2025-10-01'', last_amount = 3\<rparr>"

definition tea_entry :: desc_entry where
  "tea_entry = \<lparr>dtext = ''Tea'', count = 2, last_used = ''2025-09-15'', last_amount = 4\<rparr>"



definition huge_int_files :: "string \<Rightarrow> file_state option" where
  "huge_int_files p =
     (if p = ''data_2025-09/expenses.json''
      then Some (Parsed (JList [JDict [(''amount'', JInt (10 ^ 400))]])) else None)"

definition huge_int_env :: env where
  "huge_int_env = \<lparr>now = \<lparr>year = 2025, month = 10, day = 27\<rparr>, files = huge_int_files\<rparr>"

definition expense_huge :: expense where
  "expense_huge = \<lparr>date = ''2025-10-02'', amount = PyInt (10 ^ 400), description = ''typo''\<rparr>"

section \<open>Properties\<close>

subsection \<open>Calendar arithmetic\<close>

lemma div_pred_int:
  fixes n k :: int
  assumes "0 < k"
  shows "(n - 1) div k = n div k - (if n mod k = 0 then 1 else 0)"
proof -
  define q r where "q = n div k" and "r = n mod k"
  have n: "n = q * k + r" by (simp add: q_def r_def)
  have r: "0 \<le> r" "r < k" using assms by (simp_all add: r_def)
  show ?thesis
  proof (cases "r = 0")
    case True
    have "(n - 1) div k = ((q - 1) * k + (k - 1)) div k"
      by (rule arg_cong[where f="\<lambda>x. x div k"]) (simp add: n True algebra_simps)
    also have "\<dots> = q - 1" using assms by (simp add: div_pos_pos_trivial)
    finally show ?thesis using True by (simp add: q_def r_def)
  next
    case False
    with r have r': "0 \<le> r - 1" "r - 1 < k" by simp_all
    have "(n - 1) div k = (q * k + (r - 1)) div k"
      by (rule arg_cong[where f="\<lambda>x. x div k"]) (simp add: n)
    also have "\<dots> = q" using assms r' by (simp add: div_pos_pos_trivial)
    finally show ?thesis using False by (simp add: q_def r_def)
  qed
qed

lemma mod_400_100: "(y::int) mod 400 = 0 \<Longrightarrow> y mod 100 = 0"
proof -
  assume "y mod 400 = 0"
  then have "400 dvd y" by (simp add: mod_eq_0_iff_dvd)
  moreover have "(100::int) dvd 400" by simp
  ultimately have "100 dvd y" by (rule dvd_trans[rotated])
  then show ?thesis by (simp add: mod_eq_0_iff_dvd)
qed

lemma mod_100_4: "(y::int) mod 100 = 0 \<Longrightarrow> y mod 4 = 0"
proof -
  assume "y mod 100 = 0"
  then have "100 dvd y" by (simp add: mod_eq_0_iff_dvd)
  moreover have "(4::int) dvd 100" by simp
  ultimately have "4 dvd y" by (rule dvd_trans[rotated])
  then show ?thesis by (simp add: mod_eq_0_iff_dvd)
qed

lemma days_before_year_Suc:
  "days_before_year (y + 1) = days_before_year y + 365 + (if is_leap y then 1 else 0)"
proof -
  define a b c where "a = y div 4" and "b = y div 100" and "c = y div 400"
  have a: "(y - 1) div 4 = a - (if y mod 4 = 0 then 1 else 0)"
    unfolding a_def by (rule div_pred_int) simp
  have b: "(y - 1) div 100 = b - (if y mod 100 = 0 then 1 else 0)"
    unfolding b_def by (rule div_pred_int) simp
  have c: "(y - 1) div 400 = c - (if y mod 400 = 0 then 1 else 0)"
    unfolding c_def by (rule div_pred_int) simp
  have l: "days_before_year (y + 1) = y * 365 + a - b + c"
    by (simp add: days_before_year_def a_def b_def c_def)
  have r: "days_before_year y = (y - 1) * 365 + (a - (if y mod 4 = 0 then 1 else 0))
        - (b - (if y mod 100 = 0 then 1 else 0)) + (c - (if y mod 400 = 0 then 1 else 0))"
    unfolding days_before_year_def a b c ..
  consider (n4) "y mod 4 \<noteq> 0" | (n100) "y mod 4 = 0" "y mod 100 \<noteq> 0"
    | (n400) "y mod 4 = 0" "y mod 100 = 0" "y mod 400 \<noteq> 0" | (y400) "y mod 400 = 0"
    by (cases "y mod 4 = 0"; cases "y mod 100 = 0"; cases "y mod 400 = 0") simp_all
  then show ?thesis
  proof cases
    case n4
    then have "y mod 100 \<noteq> 0" "y mod 400 \<noteq> 0" using mod_400_100[of y] mod_100_4[of y] by argo+
    with n4 show ?thesis unfolding l r is_leap_def by (simp add: algebra_simps)
  next
    case n100
    then have "y mod 400 \<noteq> 0" using mod_400_100[of y] by argo
    with n100 show ?thesis unfolding l r is_leap_def by (simp add: algebra_simps)
  next
    case n400
    then show ?thesis unfolding l r is_leap_def by (simp add: algebra_simps)
  next
    case y400
    then have "y mod 100 = 0" "y mod 4 = 0" using mod_400_100[of y] mod_100_4[of y] by argo+
    with y400 show ?thesis unfolding l r is_leap_def by (simp add: algebra_simps)
  qed
qed

lemma days_before_year_mono: "y \<le> z \<Longrightarrow> days_before_year y \<le> days_before_year z"
proof (induction z rule: int_ge_induct)
  case base
  then show ?case by simp
next
  case (step i)
  have "days_before_year i \<le> days_before_year (i + 1)"
    unfolding days_before_year_Suc by simp
  with step show ?case by simp
qed

lemma month_cases:
  assumes "1 \<le> m" "m \<le> 12"
  shows "m = 1 \<or> m = 2 \<or> m = 3 \<or> m = 4 \<or> m = 5 \<or> m = 6 \<or> m = 7 \<or> m = 8 \<or> m = 9 \<or> m = 10 \<or> m = 11 \<or> m = (12::int)"
  using assms by presburger

lemma days_before_month_Suc:
  assumes "1 \<le> m" "m \<le> 11"
  shows "days_before_month y (m + 1) = days_before_month y m + days_in_month y m"
proof -
  from assms have "1 \<le> m" "m \<le> 12" by simp_all
  from month_cases[OF this] assms(2) show ?thesis
    by (elim disjE) (simp_all add: days_before_month_def days_in_month_def)
qed

lemma days_before_month_first: "days_before_month y 1 = 0"
  by (simp add: days_before_month_def)

lemma days_before_month_last:
  "days_before_month y 12 + 31 = 365 + (if is_leap y then 1 else 0)"
  by (simp add: days_before_month_def)

lemma days_in_month_bounds: "28 \<le> days_in_month y m" "days_in_month y m \<le> 31"
  by (simp_all add: days_in_month_def)

lemma prev_day_ok:
  assumes "valid_datetime dt" "1 < toordinal dt"
  shows "\<exists>dt'. prev_day dt = Inr dt' \<and> valid_datetime dt' \<and> toordinal dt' = toordinal dt - 1"
proof -
  from assms(1) have v: "1 \<le> year dt" "year dt \<le> 9999" "1 \<le> month dt" "month dt \<le> 12"
    "1 \<le> day dt" "day dt \<le> days_in_month (year dt) (month dt)"
    by (simp_all add: valid_datetime_def valid_ymd_def)
  consider (d) "1 < day dt" | (m) "day dt = 1" "1 < month dt"
    | (y) "day dt = 1" "month dt = 1" "1 < year dt" | (z) "day dt = 1" "month dt = 1" "year dt = 1"
    using v by linarith
  then show ?thesis
  proof cases
    case d
    then show ?thesis using v
      by (simp add: prev_day_def valid_datetime_def valid_ymd_def toordinal_def)
  next
    case m
    have "days_before_month (year dt) (month dt - 1 + 1)
        = days_before_month (year dt) (month dt - 1) + days_in_month (year dt) (month dt - 1)"
      by (rule days_before_month_Suc) (use m v in simp_all)
    then show ?thesis using m v days_in_month_bounds[of "year dt" "month dt - 1"]
      by (simp add: prev_day_def valid_datetime_def valid_ymd_def toordinal_def)
  next
    case y
    have "days_before_year (year dt - 1 + 1)
        = days_before_year (year dt - 1) + 365 + (if is_leap (year dt - 1) then 1 else 0)"
      by (rule days_before_year_Suc)
    then show ?thesis using y v days_before_month_last[of "year dt - 1"]
      by (simp add: prev_day_def valid_datetime_def valid_ymd_def toordinal_def
            days_before_month_first days_in_month_def split: if_splits)
  next
    case z
    then have "toordinal dt = 1"
      by (simp add: toordinal_def days_before_year_def days_before_month_first)
    with assms(2) show ?thesis by simp
  qed
qed

lemma next_day_ok:
  assumes "valid_datetime dt" "\<not> (year dt = 9999 \<and> month dt = 12 \<and> day dt = 31)"
  shows "\<exists>dt'. next_day dt = Inr dt' \<and> valid_datetime dt' \<and> toordinal dt' = toordinal dt + 1"
proof -
  from assms(1) have v: "1 \<le> year dt" "year dt \<le> 9999" "1 \<le> month dt" "month dt \<le> 12"
    "1 \<le> day dt" "day dt \<le> days_in_month (year dt) (month dt)"
    by (simp_all add: valid_datetime_def valid_ymd_def)
  consider (d) "day dt < days_in_month (year dt) (month dt)"
    | (m) "day dt = days_in_month (year dt) (month dt)" "month dt < 12"
    | (y) "day dt = days_in_month (year dt) (month dt)" "month dt = 12" "year dt < 9999"
    | (z) "day dt = days_in_month (year dt) (month dt)" "month dt = 12" "year dt = 9999"
    using v by linarith
  then show ?thesis
  proof cases
    case d
    then show ?thesis using v
      by (simp add: next_day_def valid_datetime_def valid_ymd_def toordinal_def)
  next
    case m
    have "days_before_month (year dt) (month dt + 1)
        = days_before_month (year dt) (month dt) + days_in_month (year dt) (month dt)"
      by (rule days_before_month_Suc) (use m v in simp_all)
    then show ?thesis using m v days_in_month_bounds[of "year dt" "month dt + 1"]
      by (simp add: next_day_def valid_datetime_def valid_ymd_def toordinal_def)
  next
    case y
    have "days_before_year (year dt + 1)
        = days_before_year (year dt) + 365 + (if is_leap (year dt) then 1 else 0)"
      by (rule days_before_year_Suc)
    moreover have "day dt = 31" using y by (simp add: days_in_month_def)
    ultimately show ?thesis using y v days_before_month_last[of "year dt"]
      by (simp add: next_day_def valid_datetime_def valid_ymd_def toordinal_def
            days_before_month_first days_in_month_def split: if_splits)
  next
    case z
    then have "day dt = 31" by (simp add: days_in_month_def)
    with z assms(2) show ?thesis by simp
  qed
qed

lemma days_before_month_mono:
  assumes "1 \<le> m" "m \<le> n" "n \<le> 12"
  shows "days_before_month y m \<le> days_before_month y n"
  using assms(2,1,3)
proof (induction n rule: int_ge_induct)
  case base
  then show ?case by simp
next
  case (step i)
  then have "days_before_month y (i + 1) = days_before_month y i + days_in_month y i"
    by (intro days_before_month_Suc) simp_all
  with step days_in_month_bounds(1)[of y i] show ?case by simp
qed

lemma days_before_month_nonneg: "1 \<le> m \<Longrightarrow> m \<le> 12 \<Longrightarrow> 0 \<le> days_before_month y m"
  using days_before_month_mono[of 1 m y] by (simp add: days_before_month_first)

lemma days_before_year_one: "days_before_year 1 = 0"
  by (simp add: days_before_year_def)

lemma valid_datetimeD:
  assumes "valid_datetime dt"
  shows "1 \<le> year dt" "year dt \<le> 9999" "1 \<le> month dt" "month dt \<le> 12"
    "1 \<le> day dt" "day dt \<le> days_in_month (year dt) (month dt)"
  using assms by (simp_all add: valid_datetime_def valid_ymd_def)

lemma toordinal_lower:
  assumes "valid_datetime dt"
  shows "days_before_year (year dt) + days_before_month (year dt) (month dt) < toordinal dt"
  using valid_datetimeD[OF assms] by (simp add: toordinal_def)

lemma toordinal_month_upper:
  assumes "valid_datetime dt"
  shows "days_before_month (year dt) (month dt) + day dt
           \<le> 365 + (if is_leap (year dt) then 1 else 0)"
proof -
  note v = valid_datetimeD[OF assms]
  show ?thesis
  proof (cases "month dt = 12")
    case True
    with v(6) have "day dt \<le> 31" by (simp add: days_in_month_def)
    with True days_before_month_last[of "year dt"] show ?thesis by simp
  next
    case False
    with v have m: "month dt \<le> 11" by simp
    then have "days_before_month (year dt) (month dt + 1)
        = days_before_month (year dt) (month dt) + days_in_month (year dt) (month dt)"
      using v by (intro days_before_month_Suc) simp_all
    moreover have "days_before_month (year dt) (month dt + 1) \<le> days_before_month (year dt) 12"
      using v m by (intro days_before_month_mono) simp_all
    ultimately show ?thesis using v(6) days_before_month_last[of "year dt"] by simp
  qed
qed

lemma toordinal_ge_one: "valid_datetime dt \<Longrightarrow> 1 \<le> toordinal dt"
  using toordinal_lower[of dt] days_before_year_mono[of 1 "year dt"]
    days_before_month_nonneg[of "month dt" "year dt"] valid_datetimeD[of dt]
  by (simp add: days_before_year_one)

lemma toordinal_strict_mono:
  assumes "valid_datetime a" "valid_datetime b" "date_lt a b"
  shows "toordinal a < toordinal b"
proof -
  note va = valid_datetimeD[OF assms(1)] and vb = valid_datetimeD[OF assms(2)]
  from assms(3) consider (y) "year a < year b" | (m) "year a = year b" "month a < month b"
    | (d) "year a = year b" "month a = month b" "day a < day b"
    by (auto simp: date_lt_def)
  then show ?thesis
  proof cases
    case y
    have "toordinal a \<le> days_before_year (year a + 1)"
      using toordinal_month_upper[OF assms(1)] days_before_year_Suc[of "year a"]
      by (simp add: toordinal_def)
    also have "\<dots> \<le> days_before_year (year b)"
      using y by (intro days_before_year_mono) simp
    also have "\<dots> < toordinal b"
      using toordinal_lower[OF assms(2)] days_before_month_nonneg[of "month b" "year b"] vb
      by simp
    finally show ?thesis .
  next
    case m
    with vb have m11: "month a \<le> 11" by simp
    have "days_before_month (year a) (month a + 1)
        = days_before_month (year a) (month a) + days_in_month (year a) (month a)"
      using va m11 by (intro days_before_month_Suc) simp_all
    moreover have "days_before_month (year a) (month a + 1) \<le> days_before_month (year a) (month b)"
      using va vb m by (intro days_before_month_mono) simp_all
    ultimately show ?thesis using va(6) vb(5) m(1) by (simp add: toordinal_def)
  next
    case d
    then show ?thesis by (simp add: toordinal_def)
  qed
qed

lemma date_lt_trichotomy: "date_lt a b \<or> date_lt b a \<or> a = b"
  by (cases a; cases b) (auto simp: date_lt_def)

lemma date_lt_iff_toordinal:
  assumes "valid_datetime a" "valid_datetime b"
  shows "date_lt a b \<longleftrightarrow> toordinal a < toordinal b"
  using toordinal_strict_mono[OF assms] toordinal_strict_mono[OF assms(2,1)]
    date_lt_trichotomy[of a b]
  by auto

lemma date_le_iff_toordinal:
  assumes "valid_datetime a" "valid_datetime b"
  shows "date_le a b \<longleftrightarrow> toordinal a \<le> toordinal b"
  unfolding date_le_def date_lt_iff_toordinal[OF assms(2,1)] by auto

lemma minus_days_ok:
  assumes "valid_datetime dt" "int n < toordinal dt"
  shows "\<exists>dt'. minus_days dt n = Inr dt' \<and> valid_datetime dt' \<and> toordinal dt' = toordinal dt - int n"
  using assms
proof (induction n arbitrary: dt)
  case 0
  then show ?case by simp
next
  case (Suc n)
  then have "1 < toordinal dt" by simp
  from prev_day_ok[OF Suc.prems(1) this] obtain d1 where
    d1: "prev_day dt = Inr d1" "valid_datetime d1" "toordinal d1 = toordinal dt - 1"
    by blast
  with Suc.prems have "int n < toordinal d1" by simp
  from Suc.IH[OF d1(2) this] d1 show ?case by auto
qed

lemma toordinal_max: "toordinal \<lparr>year = 9999, month = 12, day = 31\<rparr> = 3652059"
  by (simp add: toordinal_def days_before_year_def days_before_month_def is_leap_def)

lemma plus_days_ok:
  assumes "valid_datetime dt" "toordinal dt + int n \<le> 3652059"
  shows "\<exists>dt'. plus_days dt n = Inr dt' \<and> valid_datetime dt' \<and> toordinal dt' = toordinal dt + int n"
  using assms
proof (induction n arbitrary: dt)
  case 0
  then show ?case by simp
next
  case (Suc n)
  have "\<not> (year dt = 9999 \<and> month dt = 12 \<and> day dt = 31)"
  proof
    assume "year dt = 9999 \<and> month dt = 12 \<and> day dt = 31"
    then have "dt = \<lparr>year = 9999, month = 12, day = 31\<rparr>" by (cases dt) simp
    with Suc.prems(2) toordinal_max show False by simp
  qed
  from next_day_ok[OF Suc.prems(1) this] obtain d1 where
    d1: "next_day dt = Inr d1" "valid_datetime d1" "toordinal d1 = toordinal dt + 1"
    by blast
  with Suc.prems have "toordinal d1 + int n \<le> 3652059" by simp
  from Suc.IH[OF d1(2) this] d1 show ?case by auto
qed

lemma weekday_range: "0 \<le> weekday dt" "weekday dt \<le> 6"
  by (simp_all add: weekday_def)

lemma weekday_less_toordinal:
  assumes "valid_datetime dt"
  shows "weekday dt < toordinal dt"
proof -
  have "1 \<le> toordinal dt" by (rule toordinal_ge_one[OF assms])
  moreover have "(toordinal dt + 6) mod 7 = (toordinal dt - 1) mod 7"
    by presburger
  moreover have "(toordinal dt - 1) mod 7 \<le> toordinal dt - 1"
    using calculation(1) by (intro zmod_le_nonneg_dividend) simp
  ultimately show ?thesis by (simp add: weekday_def)
qed

subsection \<open>Numbers within the doubles\<close>

lemma max_double_large: "10 ^ 6 \<le> max_double"
proof -
  have "(10::real) ^ 6 \<le> 1 * 2 ^ 1023" by simp
  also have "\<dots> \<le> (2 - 1 / 2 ^ 52) * 2 ^ 1023"
    by (intro mult_right_mono) simp_all
  finally show ?thesis by (simp add: max_double_def)
qed

lemma max_double_pos: "0 < max_double"
  using max_double_large by simp

lemma max_double_nonneg: "0 \<le> max_double"
  using max_double_pos by simp

lemma max_double_less: "max_double < 2 * 10 ^ 308"
  by (simp add: max_double_def)

lemma mk_float_in_range: "\<bar>r\<bar> \<le> max_double \<Longrightarrow> mk_float r = Finite r"
  by (auto simp: mk_float_def)

lemma float_of_int_in_range:
  "\<bar>real_of_int i\<bar> \<le> max_double \<Longrightarrow> float_of_int i = Inr (Finite (real_of_int i))"
  by (simp add: float_of_int_def)

lemma num_val_cases:
  assumes "num_val n = Some r"
  obtains i where "n = PyInt i" "r = real_of_int i" | "n = PyFloat (Finite r)"
  using assms by (cases n rule: num_val.cases) auto

lemma num_add_in_range:
  assumes "num_val a = Some x" "num_val b = Some y"
    and "\<bar>x\<bar> \<le> max_double" "\<bar>y\<bar> \<le> max_double" "\<bar>x + y\<bar> \<le> max_double"
  shows "\<exists>n. num_add a b = Inr n \<and> num_val n = Some (x + y)"
  using assms(1)
proof (cases rule: num_val_cases)
  case (1 i)
  from assms(2) show ?thesis
  proof (cases rule: num_val_cases)
    case (1 j)
    with \<open>a = PyInt i\<close> \<open>x = real_of_int i\<close> show ?thesis by simp
  next
    case 2
    with \<open>a = PyInt i\<close> \<open>x = real_of_int i\<close> assms(3,5) show ?thesis
      by (simp add: float_of_int_in_range mk_float_in_range)
  qed
next
  case 2
  from assms(2) show ?thesis
  proof (cases rule: num_val_cases)
    case (1 j)
    with \<open>a = PyFloat (Finite x)\<close> assms(4,5) show ?thesis
      by (simp add: float_of_int_in_range mk_float_in_range)
  next
    case 2
    with \<open>a = PyFloat (Finite x)\<close> assms(5) show ?thesis
      by (simp add: mk_float_in_range)
  qed
qed

lemma py_sum_in_range:
  assumes "list_all (\<lambda>n. num_val n \<noteq> None) xs" "num_val acc = Some a"
    and "\<bar>a\<bar> + sum_list (map (\<lambda>n. \<bar>value_of n\<bar>) xs) \<le> max_double"
  shows "\<exists>n. py_sum acc xs = Inr n \<and> num_val n = Some (a + sum_list (map value_of xs))"
  using assms
proof (induction xs arbitrary: acc a)
  case Nil
  then show ?case by simp
next
  case (Cons x xs)
  from Cons.prems(1) obtain y where y: "num_val x = Some y" by auto
  then have v: "value_of x = y" by (simp add: value_of_def)
  have nn: "0 \<le> sum_list (map (\<lambda>n. \<bar>value_of n\<bar>) xs)"
    by (rule sum_list_nonneg) auto
  from Cons.prems(3) v nn have b: "\<bar>a\<bar> \<le> max_double" "\<bar>y\<bar> \<le> max_double"
    "\<bar>a + y\<bar> \<le> max_double"
    by simp_all
  from num_add_in_range[OF Cons.prems(2) y b] obtain n where
    n: "num_add acc x = Inr n" "num_val n = Some (a + y)"
    by blast
  have "\<bar>a + y\<bar> + sum_list (map (\<lambda>n. \<bar>value_of n\<bar>) xs) \<le> max_double"
    using Cons.prems(3) v by simp
  from Cons.IH[OF _ n(2) this] Cons.prems(1) obtain m where
    "py_sum n xs = Inr m" "num_val m = Some (a + y + sum_list (map value_of xs))"
    by auto
  with n v show ?case by (simp add: add.assoc)
qed

lemma abs_sum_list_le:
  "\<bar>sum_list (map f xs)\<bar> \<le> sum_list (map (\<lambda>x. \<bar>f x :: real\<bar>) xs)"
  by (induction xs) auto

lemma num_truediv_in_range:
  assumes "num_val t = Some r" "\<bar>r\<bar> \<le> max_double" "1 \<le> k" "real_of_int k \<le> max_double"
  shows "num_truediv t (PyInt k) = Inr (PyFloat (Finite (r / real_of_int k)))"
proof -
  have "\<bar>r / real_of_int k\<bar> \<le> \<bar>r\<bar>"
    using assms(3) by (simp add: divide_le_eq mult_le_cancel_left1)
  with assms(2) have q: "\<bar>r / real_of_int k\<bar> \<le> max_double" by simp
  from assms(1) show ?thesis
  proof (cases rule: num_val_cases)
    case (1 i)
    with q assms(3) show ?thesis by simp
  next
    case 2
    with q assms(3,4) show ?thesis
      by (simp add: float_of_int_in_range mk_float_in_range)
  qed
qed

subsection \<open>The expense filters\<close>

lemma filter_loop_eq:
  "filter_loop start_date end_date current_date filtered expenses =
     filtered @ filter (kept_by_range start_date
        (case end_date of None \<Rightarrow> current_date | Some e \<Rightarrow> e)) expenses"
  by (induction expenses arbitrary: filtered)
     (auto simp: kept_by_range_def date_le_def split: option.splits)

lemma filter_expenses_by_date_range_eq:
  "filter_expenses_by_date_range e expenses start_date end_date current_date =
     filter (kept_by_range start_date
        (case end_date of
           None \<Rightarrow> (case current_date of None \<Rightarrow> now e | Some d \<Rightarrow> d)
         | Some en \<Rightarrow> en)) expenses"
  by (simp add: filter_expenses_by_date_range_def filter_loop_eq)

lemma filter_past_expenses_eq:
  "filter_past_expenses e expenses current_date =
     filter (kept_by_range None (case current_date of None \<Rightarrow> now e | Some d \<Rightarrow> d)) expenses"
  by (simp add: filter_past_expenses_def filter_expenses_by_date_range_eq)

lemma date_le_lex: "date_le a b \<longleftrightarrow> (year a, month a, day a) \<le> (year b, month b, day b)"
  by (auto simp: date_le_def date_lt_def less_eq_prod_def)

lemma make_datetime_first:
  "valid_datetime dt \<Longrightarrow> make_datetime (year dt) (month dt) 1 = Inr (first_of_month dt)"
  using days_in_month_bounds(1)[of "year dt" "month dt"]
  by (simp add: make_datetime_def valid_datetime_def valid_ymd_def first_of_month_def)

lemma month_end_ok:
  assumes "valid_datetime dt" "\<not> (year dt = 9999 \<and> month dt = 12)"
  shows "\<exists>month_end.
     (if month dt = 12
      then (case make_datetime (year dt + 1) 1 1 of Inl err \<Rightarrow> Inl err | Inr d \<Rightarrow> minus_days d 1)
      else (case make_datetime (year dt) (month dt + 1) 1 of
              Inl err \<Rightarrow> Inl err | Inr d \<Rightarrow> minus_days d 1)) = Inr month_end"
proof -
  note v = valid_datetimeD[OF assms(1)]
  show ?thesis
  proof (cases "month dt = 12")
    case True
    with assms(2) v have "year dt + 1 \<le> 9999" by simp
    with True v show ?thesis
      by (simp add: make_datetime_def valid_ymd_def days_in_month_def prev_day_def)
  next
    case False
    with v have "month dt + 1 \<le> 12" by simp
    with False v days_in_month_bounds(1)[of "year dt" "month dt + 1"] show ?thesis
      by (simp add: make_datetime_def valid_ymd_def prev_day_def)
  qed
qed

lemma filter_expenses_by_month_eq:
  assumes "valid_datetime dt" "\<not> (year dt = 9999 \<and> month dt = 12)"
  shows "filter_expenses_by_month e expenses dt True =
           Inr (filter (kept_by_range (Some (first_of_month dt)) dt) expenses)"
proof -
  from month_end_ok[OF assms] obtain month_end where
    "(if month dt = 12
      then (case make_datetime (year dt + 1) 1 1 of Inl err \<Rightarrow> Inl err | Inr d \<Rightarrow> minus_days d 1)
      else (case make_datetime (year dt) (month dt + 1) 1 of
              Inl err \<Rightarrow> Inl err | Inr d \<Rightarrow> minus_days d 1)) = Inr month_end"
    by blast
  then show ?thesis
    unfolding filter_expenses_by_month_def make_datetime_first[OF assms(1)]
    by (simp add: filter_expenses_by_date_range_eq)
qed

lemma filter_expenses_by_month_cases:
  "filter_expenses_by_month e expenses dt ef = Inr r \<Longrightarrow>
     \<exists>s u. r = filter (kept_by_range (Some s) u) expenses"
  unfolding filter_expenses_by_month_def
  by (auto simp: filter_expenses_by_date_range_eq split: sum.splits if_splits)

lemma filter_expenses_by_week_cases:
  "filter_expenses_by_week e expenses dt ef = Inr r \<Longrightarrow>
     \<exists>s u. r = filter (kept_by_range (Some s) u) expenses"
  unfolding filter_expenses_by_week_def
  by (auto simp: filter_expenses_by_date_range_eq split: sum.splits if_splits)

lemma week_bound:
  fixes n :: int
  assumes "n \<le> 3652054"
  shows "n - (n + 6) mod 7 + 6 \<le> 3652059"
proof -
  have "n - (n + 6) mod 7 + 6 = 7 * ((n + 6) div 7)"
    using mult_div_mod_eq[of 7 "n + 6"] by linarith
  moreover have "(n + 6) div 7 \<le> 3652060 div 7"
    using assms by (intro zdiv_mono1) simp_all
  ultimately show ?thesis by simp
qed

lemma example_dates:
  "parse_date (date expense_rent) = Some \<lparr>year = 2025, month = 10, day = 20\<rparr>"
  "parse_date (date expense_undated) = None"
  "parse_date (date expense_coffee) = Some \<lparr>year = 2025, month = 10, day = 3\<rparr>"
  "parse_date (date expense_old) = Some \<lparr>year = 2025, month = 9, day = 30\<rparr>"
  by code_simp+

text \<open>
  Claim C2. For every expense list and every start and end date,
  \<^verbatim>\<open>_filter_expenses_by_date_range\<close> keeps exactly the expenses whose date string parses to
  a date \<open>d\<close> with \<open>start_date \<le> d \<le> end_date\<close>, both bounds inclusive; when
  \<^verbatim>\<open>end_date\<close> is absent the upper bound is \<^verbatim>\<open>current_date\<close> (the clock when that is absent
  too), so that future expenses are excluded.
\<close>

theorem filter_expenses_by_date_range_inclusive:
  "filter_expenses_by_date_range e expenses start_date (Some end_date) current_date =
       filter (kept_by_range start_date end_date) expenses
   \<and> filter_expenses_by_date_range e expenses start_date None current_date =
       filter (kept_by_range start_date (case current_date of None \<Rightarrow> now e | Some d \<Rightarrow> d))
         expenses"
  by (simp add: filter_expenses_by_date_range_eq)

theorem filter_expenses_by_date_range_inclusive_witness:
  "filter_expenses_by_date_range example_env example_expenses (Some oct_1) (Some oct_15)
       (Some oct_22) = [expense_coffee]
   \<and> filter_expenses_by_date_range example_env example_expenses (Some oct_1) None (Some oct_22)
     = [expense_rent, expense_coffee]"
  using filter_expenses_by_date_range_inclusive
    [of example_env example_expenses "Some oct_1" oct_15 "Some oct_22"]
  by (simp add: example_expenses_def kept_by_range_def example_dates date_le_def date_lt_def
        oct_1_def oct_15_def oct_22_def)

lemma kept_by_range_invalid: "parse_date (date x) = None \<Longrightarrow> \<not> kept_by_range s u x"
  by (simp add: kept_by_range_def)

lemma filter_expenses_by_week_eq:
  assumes "valid_datetime dt" "date_le dt \<lparr>year = 9999, month = 12, day = 26\<rparr>"
  shows "\<exists>week_start. minus_days dt (nat (weekday dt)) = Inr week_start
           \<and> valid_datetime week_start
           \<and> toordinal week_start = toordinal dt - weekday dt
           \<and> filter_expenses_by_week e expenses dt True =
                Inr (filter (kept_by_range (Some week_start) dt) expenses)"
proof -
  have w: "0 \<le> weekday dt" "weekday dt < toordinal dt"
    using weekday_range(1) weekday_less_toordinal[OF assms(1)] by simp_all
  then have "int (nat (weekday dt)) < toordinal dt" by simp
  from minus_days_ok[OF assms(1) this] w(1) obtain ws where
    ws: "minus_days dt (nat (weekday dt)) = Inr ws" "valid_datetime ws"
        "toordinal ws = toordinal dt - weekday dt"
    by auto
  have "valid_datetime \<lparr>year = 9999, month = 12, day = 26\<rparr>"
    by (simp add: valid_datetime_def valid_ymd_def days_in_month_def)
  from assms(2)[unfolded date_le_iff_toordinal[OF assms(1) this]]
  have "toordinal dt \<le> 3652054"
    by (simp add: toordinal_def days_before_year_def days_before_month_def is_leap_def)
  from week_bound[OF this] ws(3) have "toordinal ws + int 6 \<le> 3652059"
    by (simp add: weekday_def)
  from plus_days_ok[OF ws(2) this] obtain we where "plus_days ws 6 = Inr we"
    by blast
  with ws show ?thesis
    by (simp add: filter_expenses_by_week_def filter_expenses_by_date_range_eq)
qed

lemma weekday_week_start:
  assumes "toordinal ws = toordinal dt - weekday dt"
  shows "weekday ws = 0"
proof -
  have "(toordinal dt - (toordinal dt + 6) mod 7 + 6) mod 7 = 0"
    by presburger
  with assms show ?thesis by (simp add: weekday_def)
qed

text \<open>
  Claim C8. Every expense filter returns an order-preserving subsequence of its input: the
  kept records are records of the input, none is duplicated or created, and their relative
  order is the input order. The input list is not modified: the filters only read it and
  build a new list. The month and week filters return a list except for a date at the very
  end of the year 9999, where their date arithmetic raises.
\<close>

theorem filters_return_subsequences:
  "subseq (filter_expenses_by_date_range e expenses start_date end_date current_date) expenses
   \<and> (\<forall>r. filter_expenses_by_month e expenses month_date exclude_future = Inr r
          \<longrightarrow> subseq r expenses)
   \<and> (\<forall>r. filter_expenses_by_week e expenses week_date exclude_future = Inr r
          \<longrightarrow> subseq r expenses)
   \<and> subseq (filter_past_expenses e expenses current_date) expenses
   \<and> (valid_datetime month_date \<and> \<not> (year month_date = 9999 \<and> month month_date = 12)
        \<longrightarrow> (\<exists>r. filter_expenses_by_month e expenses month_date True = Inr r))
   \<and> (valid_datetime week_date \<and> date_le week_date \<lparr>year = 9999, month = 12, day = 26\<rparr>
        \<longrightarrow> (\<exists>r. filter_expenses_by_week e expenses week_date True = Inr r))"
proof (intro conjI allI impI)
  show "subseq (filter_expenses_by_date_range e expenses start_date end_date current_date) expenses"
    by (simp add: filter_expenses_by_date_range_eq)
  show "subseq (filter_past_expenses e expenses current_date) expenses"
    by (simp add: filter_past_expenses_eq)
next
  fix r assume "filter_expenses_by_month e expenses month_date exclude_future = Inr r"
  from filter_expenses_by_month_cases[OF this] show "subseq r expenses" by auto
next
  fix r assume "filter_expenses_by_week e expenses week_date exclude_future = Inr r"
  from filter_expenses_by_week_cases[OF this] show "subseq r expenses" by auto
next
  assume "valid_datetime month_date \<and> \<not> (year month_date = 9999 \<and> month month_date = 12)"
  then show "\<exists>r. filter_expenses_by_month e expenses month_date True = Inr r"
    using filter_expenses_by_month_eq[of month_date e expenses] by blast
next
  assume "valid_datetime week_date \<and> date_le week_date \<lparr>year = 9999, month = 12, day = 26\<rparr>"
  then show "\<exists>r. filter_expenses_by_week e expenses week_date True = Inr r"
    using filter_expenses_by_week_eq[of week_date e expenses] by blast
qed

lemma example_valid: "valid_datetime oct_1" "valid_datetime oct_15" "valid_datetime oct_22"
  by (simp_all add: valid_datetime_def valid_ymd_def days_in_month_def oct_1_def oct_15_def oct_22_def)

lemma example_month: "filter_expenses_by_month example_env example_expenses oct_15 True = Inr [expense_coffee]"
  using filter_expenses_by_month_eq[of oct_15 example_env example_expenses] example_valid(2)
  by (simp add: example_expenses_def kept_by_range_def example_dates date_le_def date_lt_def
        oct_15_def first_of_month_def)

lemma example_week_start: "minus_days oct_22 (nat (weekday oct_22)) = Inr \<lparr>year = 2025, month = 10, day = 20\<rparr>"
  by code_simp

lemma example_week:
  "filter_expenses_by_week example_env example_expenses oct_22 True = Inr [expense_rent]"
proof -
  have "plus_days \<lparr>year = 2025, month = 10, day = 20\<rparr> 6 = Inr \<lparr>year = 2025, month = 10, day = 26\<rparr>"
    by code_simp
  then show ?thesis
    unfolding filter_expenses_by_week_def example_week_start
    by (simp add: filter_expenses_by_date_range_eq
          example_expenses_def kept_by_range_def example_dates date_le_def date_lt_def oct_22_def)
qed

theorem filters_return_subsequences_witness:
  "filter_expenses_by_month example_env example_expenses oct_15 True = Inr [expense_coffee]
   \<and> subseq [expense_coffee] example_expenses
   \<and> filter_expenses_by_week example_env example_expenses oct_22 True = Inr [expense_rent]
   \<and> subseq [expense_rent] example_expenses"
  using filters_return_subsequences
    [of example_env example_expenses "Some oct_1" "Some oct_15" None oct_15 True oct_22]
    example_month example_week
  by simp

lemma kept_by_range_weaken: "kept_by_range (Some s) u x \<Longrightarrow> kept_by_range None u x"
  by (auto simp: kept_by_range_def split: option.splits)

lemma no_survivor_window:
  assumes "filter_past_expenses e expenses (Some current_date) = []"
  shows "filter (kept_by_range (Some s) current_date) expenses = []"
proof -
  from assms have "\<forall>x\<in>set expenses. \<not> kept_by_range None current_date x"
    by (simp add: filter_past_expenses_eq filter_empty_conv)
  then have "\<forall>x\<in>set expenses. \<not> kept_by_range (Some s) current_date x"
    using kept_by_range_weaken by blast
  then show ?thesis by (simp add: filter_empty_conv)
qed

lemma num_truediv_zero: "0 < k \<Longrightarrow> num_truediv (PyInt 0) (PyInt k) = Inr (PyFloat (Finite 0))"
  by (simp add: max_double_nonneg)

lemma example_month_rent:
  "filter_expenses_by_month example_env [expense_rent] oct_15 True = Inr []"
  using filter_expenses_by_month_eq[of oct_15 example_env "[expense_rent]"] example_valid(2)
  by (simp add: kept_by_range_def example_dates date_le_def date_lt_def oct_15_def
        first_of_month_def)

lemma example_no_survivor:
  "filter_past_expenses example_env [expense_rent] (Some oct_15) = []"
  by (simp add: filter_past_expenses_eq kept_by_range_def example_dates date_le_def date_lt_def
        oct_15_def)

text \<open>
  Claim C9, as amended. For the empty expense list every aggregation returns its zero result,
  whatever the date and the clock: \<open>(0.0, 0)\<close> for the daily average, the weekly average, the
  weekly pace and the median, and \<open>(0.0, "No expenses")\<close> for the largest expense. The median
  and the largest expense return the same zero results whenever no expense survives the
  past-expense filter. For a non-empty list of which no expense survives that filter, the
  daily average, the weekly average and the weekly pace return 0.0 together with the days or
  weeks elapsed, which are not 0 (for a date outside December 9999).
\<close>

theorem empty_list_zero_results:
  "calculate_daily_average e [] current_date = Inr (PyFloat (Finite 0), 0)
   \<and> calculate_weekly_average e [] current_date = Inr (PyFloat (Finite 0), 0)
   \<and> calculate_weekly_pace e [] current_date = Inr (PyFloat (Finite 0), 0)
   \<and> calculate_median_expense e [] current_date = Inr (PyFloat (Finite 0), 0)
   \<and> calculate_largest_expense e [] current_date = (PyFloat (Finite 0), ''No expenses'')
   \<and> (filter_past_expenses e expenses current_date = []
        \<longrightarrow> calculate_median_expense e expenses current_date = Inr (PyFloat (Finite 0), 0)
          \<and> calculate_largest_expense e expenses current_date
              = (PyFloat (Finite 0), ''No expenses''))
   \<and> (expenses \<noteq> [] \<and> filter_past_expenses e expenses (Some d) = [] \<and> valid_datetime d
        \<and> \<not> (year d = 9999 \<and> month d = 12)
        \<longrightarrow> calculate_daily_average e expenses (Some d) = Inr (PyFloat (Finite 0), day d)
          \<and> calculate_weekly_average e expenses (Some d)
              = Inr (PyFloat (Finite 0), (day d - 1) div 7 + 1)
          \<and> calculate_weekly_pace e expenses (Some d) = Inr (PyFloat (Finite 0), weekday d + 1)
          \<and> 0 < day d \<and> 0 < (day d - 1) div 7 + 1 \<and> 0 < weekday d + 1)"
proof -
  have "calculate_daily_average e expenses (Some d) = Inr (PyFloat (Finite 0), day d)
          \<and> calculate_weekly_average e expenses (Some d)
              = Inr (PyFloat (Finite 0), (day d - 1) div 7 + 1)
          \<and> calculate_weekly_pace e expenses (Some d) = Inr (PyFloat (Finite 0), weekday d + 1)
          \<and> 0 < day d \<and> 0 < (day d - 1) div 7 + 1 \<and> 0 < weekday d + 1"
    if ne: "expenses \<noteq> []" and pe: "filter_past_expenses e expenses (Some d) = []"
      and v: "valid_datetime d" and nd: "\<not> (year d = 9999 \<and> month d = 12)"
  proof -
    have m: "filter_expenses_by_month e expenses d True = Inr []"
      unfolding filter_expenses_by_month_eq[OF v nd] no_survivor_window[OF pe] ..
    have "date_le d \<lparr>year = 9999, month = 12, day = 26\<rparr>"
      using nd valid_datetimeD[OF v] by (auto simp: date_le_def date_lt_def)
    from filter_expenses_by_week_eq[OF v this, of e expenses] obtain ws where
      ws: "minus_days d (nat (weekday d)) = Inr ws"
          "toordinal ws = toordinal d - weekday d"
          "filter_expenses_by_week e expenses d True = Inr []"
      unfolding no_survivor_window[OF pe] by blast
    have p: "0 < day d" "0 < (day d - 1) div 7 + 1" "0 < weekday d + 1"
      using valid_datetimeD(5)[OF v] weekday_range(1)[of d]
      by (simp_all add: pos_imp_zdiv_nonneg_iff)
    show ?thesis
      using ne p by (simp add: calculate_daily_average_def calculate_weekly_average_def
            calculate_weekly_pace_def m ws Let_def max_double_nonneg)
  qed
  then show ?thesis
    by (simp add: calculate_daily_average_def calculate_weekly_average_def
          calculate_weekly_pace_def calculate_median_expense_def calculate_largest_expense_def
          filter_past_expenses_eq)
qed

theorem empty_list_zero_results_witness:
  "[expense_rent] \<noteq> [] \<and> valid_datetime oct_15 \<and> \<not> (year oct_15 = 9999 \<and> month oct_15 = 12)
   \<and> filter_past_expenses example_env [expense_rent] (Some oct_15) = []
   \<and> calculate_median_expense example_env [expense_rent] (Some oct_15)
       = Inr (PyFloat (Finite 0), 0)
   \<and> calculate_largest_expense example_env [expense_rent] (Some oct_15)
       = (PyFloat (Finite 0), ''No expenses'')
   \<and> calculate_daily_average example_env [expense_rent] (Some oct_15)
       = Inr (PyFloat (Finite 0), 15)
   \<and> calculate_weekly_average example_env [expense_rent] (Some oct_15)
       = Inr (PyFloat (Finite 0), 3)"
proof -
  have n: "\<not> (year oct_15 = 9999 \<and> month oct_15 = 12)" by (simp add: oct_15_def)
  from empty_list_zero_results[of example_env "Some oct_15" "[expense_rent]" oct_15]
    example_no_survivor n example_valid(2)
  show ?thesis by (simp add: oct_15_def)
qed

text \<open>
  Claim C9 as stated fails for the three averages: for a non-empty list of which no expense
  survives the past-expense filter, the daily average is \<open>(0.0, 15)\<close> on the 15th of the
  month, not the zero result \<open>(0.0, 0)\<close> of the empty list.
\<close>

theorem no_survivor_counterexample:
  "filter_past_expenses example_env [expense_rent] (Some oct_15) = []
   \<and> calculate_daily_average example_env [expense_rent] (Some oct_15)
       \<noteq> Inr (PyFloat (Finite 0), 0)"
proof -
  have "calculate_daily_average example_env [expense_rent] (Some oct_15)
          = Inr (PyFloat (Finite 0), 15)"
    by (simp add: calculate_daily_average_def example_month_rent Let_def max_double_nonneg)
       (simp add: oct_15_def)
  with example_no_survivor show ?thesis by simp
qed

lemma filter_kept_insert:
  "parse_date (date x) = None \<Longrightarrow>
     filter (kept_by_range s u) (xs @ x # ys) = filter (kept_by_range s u) (xs @ ys)"
  by (simp add: kept_by_range_invalid)

lemma date_range_insert:
  "parse_date (date x) = None \<Longrightarrow>
     filter_expenses_by_date_range e (xs @ x # ys) s en c = filter_expenses_by_date_range e (xs @ ys) s en c"
  unfolding filter_expenses_by_date_range_eq by (rule filter_kept_insert)

lemma month_insert:
  "parse_date (date x) = None \<Longrightarrow>
     filter_expenses_by_month e (xs @ x # ys) d ef = filter_expenses_by_month e (xs @ ys) d ef"
  unfolding filter_expenses_by_month_def by (simp only: date_range_insert)

lemma week_insert:
  "parse_date (date x) = None \<Longrightarrow>
     filter_expenses_by_week e (xs @ x # ys) d ef = filter_expenses_by_week e (xs @ ys) d ef"
  unfolding filter_expenses_by_week_def by (simp only: date_range_insert)

lemma past_insert:
  "parse_date (date x) = None \<Longrightarrow>
     filter_past_expenses e (xs @ x # ys) c = filter_past_expenses e (xs @ ys) c"
  unfolding filter_past_expenses_def by (simp only: date_range_insert)

lemma month_single_invalid:
  "parse_date (date x) = None \<Longrightarrow> filter_expenses_by_month e [x] d ef = Inr r \<Longrightarrow> r = []"
  by (drule filter_expenses_by_month_cases) (auto simp: kept_by_range_invalid)

lemma week_single_invalid:
  "parse_date (date x) = None \<Longrightarrow> filter_expenses_by_week e [x] d ef = Inr r \<Longrightarrow> r = []"
  by (drule filter_expenses_by_week_cases) (auto simp: kept_by_range_invalid)

text \<open>
  Claim C3. An expense whose date string does not parse is skipped: it appears in no filtered
  result (date range, month, week, past), and it contributes to no median, largest expense,
  total, average or pace: removing it from the list leaves each result unchanged, and a list
  that holds nothing else has the total and average 0.
\<close>

theorem invalid_date_skipped:
  assumes "parse_date (date x) = None"
  shows "x \<notin> set (filter_expenses_by_date_range e expenses start_date end_date current_date)
    \<and> (\<forall>r. filter_expenses_by_month e expenses month_date exclude_future = Inr r \<longrightarrow> x \<notin> set r)
    \<and> (\<forall>r. filter_expenses_by_week e expenses week_date exclude_future = Inr r \<longrightarrow> x \<notin> set r)
    \<and> x \<notin> set (filter_past_expenses e expenses current_date)
    \<and> calculate_median_expense e (xs @ x # ys) current_date
         = calculate_median_expense e (xs @ ys) current_date
    \<and> calculate_largest_expense e (xs @ x # ys) current_date
         = calculate_largest_expense e (xs @ ys) current_date
    \<and> (xs @ ys \<noteq> [] \<longrightarrow>
          calculate_daily_average e (xs @ x # ys) current_date
            = calculate_daily_average e (xs @ ys) current_date
        \<and> calculate_weekly_average e (xs @ x # ys) current_date
            = calculate_weekly_average e (xs @ ys) current_date
        \<and> calculate_weekly_pace e (xs @ x # ys) current_date
            = calculate_weekly_pace e (xs @ ys) current_date)
    \<and> (\<forall>r. calculate_daily_average e [x] current_date = Inr r \<longrightarrow> num_val (fst r) = Some 0)
    \<and> (\<forall>r. calculate_weekly_average e [x] current_date = Inr r \<longrightarrow> num_val (fst r) = Some 0)
    \<and> (\<forall>r. calculate_weekly_pace e [x] current_date = Inr r \<longrightarrow> num_val (fst r) = Some 0)"
proof (intro conjI allI impI)
  show "x \<notin> set (filter_expenses_by_date_range e expenses start_date end_date current_date)"
    using assms by (simp add: filter_expenses_by_date_range_eq kept_by_range_invalid)
  show "x \<notin> set (filter_past_expenses e expenses current_date)"
    using assms by (simp add: filter_past_expenses_eq kept_by_range_invalid)
  show "calculate_median_expense e (xs @ x # ys) current_date
         = calculate_median_expense e (xs @ ys) current_date"
    unfolding calculate_median_expense_def by (simp only: past_insert[OF assms])
  show "calculate_largest_expense e (xs @ x # ys) current_date
         = calculate_largest_expense e (xs @ ys) current_date"
    unfolding calculate_largest_expense_def by (simp only: past_insert[OF assms])
next
  fix r assume "filter_expenses_by_month e expenses month_date exclude_future = Inr r"
  from filter_expenses_by_month_cases[OF this] assms show "x \<notin> set r"
    by (auto simp: kept_by_range_invalid)
next
  fix r assume "filter_expenses_by_week e expenses week_date exclude_future = Inr r"
  from filter_expenses_by_week_cases[OF this] assms show "x \<notin> set r"
    by (auto simp: kept_by_range_invalid)
next
  assume "xs @ ys \<noteq> []"
  then have ne: "(xs @ ys = []) = False" "(xs @ x # ys = []) = False" by simp_all
  show "calculate_daily_average e (xs @ x # ys) current_date
            = calculate_daily_average e (xs @ ys) current_date"
    unfolding calculate_daily_average_def by (simp only: ne if_False month_insert[OF assms])
  show "calculate_weekly_average e (xs @ x # ys) current_date
            = calculate_weekly_average e (xs @ ys) current_date"
    unfolding calculate_weekly_average_def by (simp only: ne if_False month_insert[OF assms])
  show "calculate_weekly_pace e (xs @ x # ys) current_date
            = calculate_weekly_pace e (xs @ ys) current_date"
    unfolding calculate_weekly_pace_def by (simp only: ne if_False week_insert[OF assms])
next
  fix r assume "calculate_daily_average e [x] current_date = Inr r"
  then show "num_val (fst r) = Some 0"
    by (auto simp: calculate_daily_average_def Let_def max_double_nonneg
          split: sum.splits if_splits dest!: month_single_invalid[OF assms])
next
  fix r assume "calculate_weekly_average e [x] current_date = Inr r"
  then show "num_val (fst r) = Some 0"
    by (auto simp: calculate_weekly_average_def Let_def max_double_nonneg
          split: sum.splits if_splits dest!: month_single_invalid[OF assms])
next
  fix r assume "calculate_weekly_pace e [x] current_date = Inr r"
  then show "num_val (fst r) = Some 0"
    by (auto simp: calculate_weekly_pace_def Let_def max_double_nonneg
          split: sum.splits if_splits dest!: week_single_invalid[OF assms])
qed

theorem invalid_date_skipped_witness:
  "parse_date (date expense_undated) = None
   \<and> expense_undated \<notin> set (filter_expenses_by_date_range example_env example_expenses
          (Some oct_1) (Some oct_15) (Some oct_22))
   \<and> calculate_median_expense example_env example_expenses (Some oct_22)
       = calculate_median_expense example_env [expense_rent, expense_coffee, expense_old]
           (Some oct_22)
   \<and> calculate_daily_average example_env example_expenses (Some oct_22)
       = calculate_daily_average example_env [expense_rent, expense_coffee, expense_old]
           (Some oct_22)"
  using invalid_date_skipped[OF example_dates(2), where e = example_env
      and expenses = example_expenses and start_date = "Some oct_1" and end_date = "Some oct_15"
      and current_date = "Some oct_22" and xs = "[expense_rent]"
      and ys = "[expense_coffee, expense_old]"]
  by (simp add: example_expenses_def example_dates(2))

lemma parse_date_valid: "parse_date s = Some d \<Longrightarrow> valid_datetime d"
  by (auto simp: parse_date_def strptime_ymd_def make_datetime_def valid_datetime_def
        split: sum.splits list.splits if_splits option.splits)

lemma kept_by_month_window:
  "kept_by_range (Some (first_of_month current_date)) current_date x
     \<longleftrightarrow> in_month_to_date current_date x"
proof (cases "parse_date (date x)")
  case None
  then show ?thesis by (simp add: kept_by_range_def in_month_to_date_def)
next
  case (Some d)
  from parse_date_valid[OF this] have "1 \<le> day d" by (rule valid_datetimeD)
  with Some show ?thesis
    by (auto simp: kept_by_range_def in_month_to_date_def date_le_def date_lt_def
          first_of_month_def)
qed

text \<open>
  The sum of amounts that are within the doubles is the float or int of their real sum, and
  its division by a positive number of days is the float of the real quotient.
\<close>

lemma map_amount_value: "map amount_value xs = map value_of (map amount xs)"
  by (simp add: amount_value_def)

lemma sum_of_amounts:
  assumes "amounts_in_range xs"
  shows "\<exists>n. py_sum (PyInt 0) (map amount xs) = Inr n
           \<and> num_val n = Some (sum_list (map amount_value xs))
           \<and> \<bar>sum_list (map amount_value xs)\<bar> \<le> max_double"
proof -
  from assms have f: "list_all (\<lambda>n. num_val n \<noteq> None) (map amount xs)"
    by (simp add: amounts_in_range_def list_all_iff)
  have "map (\<lambda>n. \<bar>value_of n\<bar>) (map amount xs) = map (\<lambda>x. \<bar>amount_value x\<bar>) xs"
    by (simp add: amount_value_def)
  with assms have b: "sum_list (map (\<lambda>n. \<bar>value_of n\<bar>) (map amount xs)) \<le> max_double"
    by (simp only: amounts_in_range_def)
  have "\<exists>n. py_sum (PyInt 0) (map amount xs) = Inr n
      \<and> num_val n = Some (0 + sum_list (map value_of (map amount xs)))"
    by (rule py_sum_in_range[OF f]) (use b in simp_all)
  moreover have "\<bar>sum_list (map value_of (map amount xs))\<bar> \<le> max_double"
    using abs_sum_list_le[of value_of "map amount xs"] b by simp
  ultimately show ?thesis unfolding map_amount_value by simp
qed

lemma average_of_amounts:
  assumes "amounts_in_range xs" "1 \<le> k" "k \<le> 31"
  shows "\<exists>total. py_sum (PyInt 0) (map amount xs) = Inr total
           \<and> num_truediv total (PyInt k)
               = Inr (PyFloat (Finite (sum_list (map amount_value xs) / real_of_int k)))"
proof -
  from sum_of_amounts[OF assms(1)] obtain n where
    n: "py_sum (PyInt 0) (map amount xs) = Inr n"
       "num_val n = Some (sum_list (map amount_value xs))"
       "\<bar>sum_list (map amount_value xs)\<bar> \<le> max_double"
    by blast
  have "real_of_int k \<le> 10 ^ 6" using assms(3) by simp
  then have "real_of_int k \<le> max_double" using max_double_large by linarith
  from num_truediv_in_range[OF n(2,3) assms(2) this] n(1) show ?thesis by blast
qed

text \<open>
  Claim C7, as amended. For every non-empty expense list and every \<^verbatim>\<open>current_date\<close> outside
  December 9999, \<^verbatim>\<open>calculate_daily_average\<close> returns \<open>(T / day, day)\<close> and
  \<^verbatim>\<open>calculate_weekly_average\<close> returns \<open>(T / w, w)\<close> with \<open>w = (day - 1) div 7 + 1\<close>,
  where \<open>T\<close> is the sum of the amounts of the expenses of \<^verbatim>\<open>current_date\<close>'s calendar month
  that are dated on or before \<^verbatim>\<open>current_date\<close>, provided these amounts are finite numbers
  whose absolute values sum to at most the largest double. For the empty list both return
  \<open>(0.0, 0)\<close>.
\<close>

theorem monthly_averages:
  assumes "expenses \<noteq> []" "valid_datetime current_date"
    "\<not> (year current_date = 9999 \<and> month current_date = 12)"
    "amounts_in_range (filter (in_month_to_date current_date) expenses)"
  shows "calculate_daily_average e expenses (Some current_date) =
           Inr (PyFloat (Finite (total_of (in_month_to_date current_date) expenses
                                   / real_of_int (day current_date))),
                day current_date)
       \<and> calculate_weekly_average e expenses (Some current_date) =
           Inr (PyFloat (Finite (total_of (in_month_to_date current_date) expenses
                                   / real_of_int ((day current_date - 1) div 7 + 1))),
                (day current_date - 1) div 7 + 1)
       \<and> calculate_daily_average e [] any_date = Inr (PyFloat (Finite 0), 0)
       \<and> calculate_weekly_average e [] any_date = Inr (PyFloat (Finite 0), 0)"
proof -
  let ?kept = "filter (in_month_to_date current_date) expenses"
  have f: "filter_expenses_by_month e expenses current_date True = Inr ?kept"
    unfolding filter_expenses_by_month_eq[OF assms(2,3)]
    by (simp add: kept_by_month_window cong: filter_cong)
  note v = valid_datetimeD[OF assms(2)]
  have d31: "day current_date \<le> 31"
    using v(6) days_in_month_bounds(2)[of "year current_date" "month current_date"] by simp
  have w: "1 \<le> (day current_date - 1) div 7 + 1" "(day current_date - 1) div 7 + 1 \<le> 31"
    using v(5) d31 by (simp_all add: pos_imp_zdiv_nonneg_iff)
  from average_of_amounts[OF assms(4) v(5) d31] obtain total where
    t: "py_sum (PyInt 0) (map amount ?kept) = Inr total"
       "num_truediv total (PyInt (day current_date))
          = Inr (PyFloat (Finite (sum_list (map amount_value ?kept)
                                    / real_of_int (day current_date))))"
    by blast
  from average_of_amounts[OF assms(4) w] t(1) have
    tw: "num_truediv total (PyInt ((day current_date - 1) div 7 + 1))
          = Inr (PyFloat (Finite (sum_list (map amount_value ?kept)
                                    / real_of_int ((day current_date - 1) div 7 + 1))))"
    by auto
  have "calculate_daily_average e expenses (Some current_date) =
           Inr (PyFloat (Finite (total_of (in_month_to_date current_date) expenses
                                   / real_of_int (day current_date))),
                day current_date)"
    using assms(1) v(5) unfolding calculate_daily_average_def total_of_def
    by (simp add: f t Let_def)
  moreover have "calculate_weekly_average e expenses (Some current_date) =
           Inr (PyFloat (Finite (total_of (in_month_to_date current_date) expenses
                                   / real_of_int ((day current_date - 1) div 7 + 1))),
                (day current_date - 1) div 7 + 1)"
    using assms(1) w(1) unfolding calculate_weekly_average_def total_of_def
    by (simp only: f t(1) tw Let_def option.case sum.case if_False) simp
  ultimately show ?thesis
    by (simp add: calculate_daily_average_def calculate_weekly_average_def)
qed

lemma example_amounts:
  "amount_value expense_rent = 10" "amount_value expense_coffee = 3"
  "amount_value expense_old = 7" "amount_value expense_undated = 5"
  "num_val (amount expense_rent) = Some 10" "num_val (amount expense_coffee) = Some 3"
  "num_val (amount expense_old) = Some 7" "num_val (amount expense_undated) = Some 5"
  by (simp_all add: amount_value_def value_of_def expense_rent_def expense_coffee_def
        expense_old_def expense_undated_def)

lemma small_in_range: "r \<le> 10 ^ 6 \<Longrightarrow> r \<le> max_double"
  using max_double_large by linarith

theorem monthly_averages_witness:
  "example_expenses \<noteq> [] \<and> valid_datetime oct_15
   \<and> \<not> (year oct_15 = 9999 \<and> month oct_15 = 12)
   \<and> amounts_in_range (filter (in_month_to_date oct_15) example_expenses)
   \<and> calculate_daily_average example_env example_expenses (Some oct_15)
       = Inr (PyFloat (Finite (3 / 15)), 15)
   \<and> calculate_weekly_average example_env example_expenses (Some oct_15)
       = Inr (PyFloat (Finite 1), 3)"
proof -
  have a: "example_expenses \<noteq> []" by (simp add: example_expenses_def)
  have c: "\<not> (year oct_15 = 9999 \<and> month oct_15 = 12)" by (simp add: oct_15_def)
  have k: "filter (in_month_to_date oct_15) example_expenses = [expense_coffee]"
    by (simp add: in_month_to_date_def example_expenses_def example_dates oct_15_def)
  have r: "amounts_in_range (filter (in_month_to_date oct_15) example_expenses)"
    unfolding k by (simp add: amounts_in_range_def example_amounts small_in_range)
  have t: "total_of (in_month_to_date oct_15) example_expenses = 3"
    by (simp add: total_of_def k example_amounts)
  from monthly_averages[OF a example_valid(2) c r, of example_env] a example_valid(2) c r
  show ?thesis unfolding t by (simp add: oct_15_def)
qed

text \<open>
  In December 9999 the month filter raises while it computes the end of the month, in the
  last week of that year the week filter raises while it computes the end of the week, and
  an \<^verbatim>\<open>int\<close> total beyond the doubles raises in the division.
\<close>

lemma december_9999_raises:
  "calculate_daily_average example_env example_expenses (Some dec_15_9999) = Inl ValueError"
  by (simp add: calculate_daily_average_def filter_expenses_by_month_def make_datetime_def
        valid_ymd_def days_in_month_def example_expenses_def dec_15_9999_def)

lemma last_week_9999_raises:
  "calculate_weekly_pace example_env example_expenses (Some dec_28_9999) = Inl OverflowError"
proof -
  have "minus_days dec_28_9999 (nat (weekday dec_28_9999))
          = Inr \<lparr>year = 9999, month = 12, day = 27\<rparr>"
    unfolding dec_28_9999_def by code_simp
  moreover have "plus_days \<lparr>year = 9999, month = 12, day = 27\<rparr> 6 = Inl OverflowError"
    by code_simp
  ultimately show ?thesis
    by (simp add: calculate_weekly_pace_def filter_expenses_by_week_def example_expenses_def)
qed

lemma huge_total_raises:
  "calculate_daily_average example_env [expense_huge] (Some oct_15) = Inl OverflowError"
proof -
  have p: "parse_date (date expense_huge) = Some \<lparr>year = 2025, month = 10, day = 2\<rparr>"
    unfolding expense_huge_def by code_simp
  have "filter_expenses_by_month example_env [expense_huge] oct_15 True = Inr [expense_huge]"
    using filter_expenses_by_month_eq[of oct_15 example_env "[expense_huge]"] example_valid(2)
    by (simp add: kept_by_range_def p date_le_def date_lt_def oct_15_def first_of_month_def)
  moreover have "\<not> \<bar>(10::real) ^ 400 / 15\<bar> \<le> max_double"
    using max_double_less by simp
  ultimately show ?thesis
    by (simp add: calculate_daily_average_def Let_def oct_15_def expense_huge_def)
qed

text \<open>
  Claim C7 as stated fails: an expense of the month dated after \<^verbatim>\<open>current_date\<close> is part of
  the calendar month's total and not of the total the averages use.
\<close>

theorem monthly_total_counterexample:
  "calculate_daily_average example_env [expense_rent] (Some oct_15)
     \<noteq> Inr (PyFloat (Finite (total_of (in_calendar_month oct_15) [expense_rent]
                              / real_of_int (day oct_15))),
            day oct_15)"
proof -
  have "calculate_daily_average example_env [expense_rent] (Some oct_15)
          = Inr (PyFloat (Finite 0), 15)"
    by (simp add: calculate_daily_average_def example_month_rent Let_def max_double_nonneg)
       (simp add: oct_15_def)
  moreover have "total_of (in_calendar_month oct_15) [expense_rent] = 10"
    by (simp add: total_of_def in_calendar_month_def example_dates oct_15_def example_amounts)
  ultimately show ?thesis by (simp add: oct_15_def)
qed

text \<open>
  Claim C4, as amended. For every non-empty expense list and every \<^verbatim>\<open>current_date\<close> whose
  week ends by 9999-12-31 (a date before Monday 9999-12-27),
  \<^verbatim>\<open>calculate_weekly_pace\<close> returns \<open>(pace, days)\<close> where \<open>days\<close> is the number of days from
  the Monday of \<^verbatim>\<open>current_date\<close>'s week through \<^verbatim>\<open>current_date\<close> inclusive (the weekday
  number plus one, between 1 and 7) and \<open>pace\<close> is the sum of the amounts of the expenses with
  valid dates in that window, divided by \<open>days\<close>, provided these amounts are finite numbers
  whose absolute values sum to at most the largest double. For the empty list it returns
  \<open>(0.0, 0)\<close>.
\<close>

theorem weekly_pace:
  assumes "expenses \<noteq> []" "valid_datetime current_date"
    "date_le current_date \<lparr>year = 9999, month = 12, day = 26\<rparr>"
    "amounts_in_range
       (filter (kept_by_range (Some (week_start_of current_date)) current_date) expenses)"
  shows "calculate_weekly_pace e expenses (Some current_date)
           = Inr (PyFloat (Finite (fst (weekly_pace_of expenses current_date))),
                  snd (weekly_pace_of expenses current_date))
       \<and> snd (weekly_pace_of expenses current_date) = weekday current_date + 1
       \<and> valid_datetime (week_start_of current_date)
       \<and> weekday (week_start_of current_date) = 0
       \<and> date_le (week_start_of current_date) current_date
       \<and> toordinal current_date - toordinal (week_start_of current_date) + 1
            = weekday current_date + 1
       \<and> 1 \<le> weekday current_date + 1 \<and> weekday current_date + 1 \<le> 7
       \<and> calculate_weekly_pace e [] any_date = Inr (PyFloat (Finite 0), 0)"
proof -
  from filter_expenses_by_week_eq[OF assms(2,3), of e expenses] obtain ws where
    ws: "minus_days current_date (nat (weekday current_date)) = Inr ws" "valid_datetime ws"
        "toordinal ws = toordinal current_date - weekday current_date"
        "filter_expenses_by_week e expenses current_date True =
           Inr (filter (kept_by_range (Some ws) current_date) expenses)"
    by blast
  have s: "week_start_of current_date = ws" by (simp add: week_start_of_def ws(1))
  let ?kept = "filter (kept_by_range (Some ws) current_date) expenses"
  have r: "0 \<le> weekday current_date" "weekday current_date \<le> 6" by (rule weekday_range)+
  then have k: "1 \<le> weekday current_date + 1" "weekday current_date + 1 \<le> 31" by simp_all
  from average_of_amounts[OF assms(4)[unfolded s] k] obtain total where
    t: "py_sum (PyInt 0) (map amount ?kept) = Inr total"
       "num_truediv total (PyInt (weekday current_date + 1))
          = Inr (PyFloat (Finite (sum_list (map amount_value ?kept)
                                    / real_of_int (weekday current_date + 1))))"
    by blast
  have d: "toordinal current_date - toordinal ws + 1 = weekday current_date + 1"
    using ws(3) by simp
  have "date_le ws current_date"
    unfolding date_le_iff_toordinal[OF ws(2) assms(2)] using ws(3) r by simp
  moreover have "weekday ws = 0" by (rule weekday_week_start[OF ws(3)])
  moreover have "calculate_weekly_pace e expenses (Some current_date)
           = Inr (PyFloat (Finite (fst (weekly_pace_of expenses current_date))),
                  snd (weekly_pace_of expenses current_date))"
    using assms(1) r(1) unfolding calculate_weekly_pace_def weekly_pace_of_def total_of_def s
    by (simp add: ws t d Let_def)
  moreover have "snd (weekly_pace_of expenses current_date) = weekday current_date + 1"
    by (simp add: weekly_pace_of_def s d Let_def)
  moreover have "calculate_weekly_pace e [] any_date = Inr (PyFloat (Finite 0), 0)"
    by (simp add: calculate_weekly_pace_def)
  ultimately show ?thesis using ws r by (simp add: s)
qed

lemma example_week_start_of: "week_start_of oct_22 = oct_20"
  by (simp add: week_start_of_def example_week_start oct_20_def)

lemma example_toordinal: "toordinal oct_22 = 739546" "toordinal oct_20 = 739544"
  by (simp_all add: toordinal_def days_before_year_def days_before_month_def is_leap_def
        oct_22_def oct_20_def)

lemma example_weekday: "weekday oct_22 = 2"
  by (simp add: weekday_def example_toordinal)

theorem weekly_pace_witness:
  "example_expenses \<noteq> [] \<and> valid_datetime oct_22
   \<and> date_le oct_22 \<lparr>year = 9999, month = 12, day = 26\<rparr>
   \<and> amounts_in_range (filter (kept_by_range (Some (week_start_of oct_22)) oct_22)
        example_expenses)
   \<and> calculate_weekly_pace example_env example_expenses (Some oct_22)
       = Inr (PyFloat (Finite (10 / 3)), 3)
   \<and> week_start_of oct_22 = oct_20 \<and> weekday oct_22 + 1 = 3"
proof -
  have a: "example_expenses \<noteq> []" by (simp add: example_expenses_def)
  have c: "date_le oct_22 \<lparr>year = 9999, month = 12, day = 26\<rparr>"
    by (simp add: date_le_def date_lt_def oct_22_def)
  have k: "filter (kept_by_range (Some oct_20) oct_22) example_expenses = [expense_rent]"
    by (simp add: kept_by_range_def example_expenses_def example_dates
          date_le_def date_lt_def oct_20_def oct_22_def)
  have r: "amounts_in_range (filter (kept_by_range (Some (week_start_of oct_22)) oct_22)
        example_expenses)"
    unfolding example_week_start_of k
    by (simp add: amounts_in_range_def example_amounts small_in_range)
  have p: "weekly_pace_of example_expenses oct_22 = (10 / 3, 3)"
    by (simp add: weekly_pace_of_def example_week_start_of example_toordinal total_of_def k
          example_amounts)
  from weekly_pace[OF a example_valid(3) c r, of example_env] a example_valid(3) c r
  show ?thesis by (simp add: p example_week_start_of example_weekday)
qed

text \<open>
  Claim C4 as stated fails for the empty list, which returns \<open>(0.0, 0)\<close>: zero days, not the
  days elapsed in the week.
\<close>

theorem weekly_pace_counterexample:
  "calculate_weekly_pace example_env [] (Some oct_22)
     \<noteq> Inr (PyFloat (Finite (fst (weekly_pace_of [] oct_22))), snd (weekly_pace_of [] oct_22))"
  by (simp add: calculate_weekly_pace_def weekly_pace_of_def example_week_start_of
        example_toordinal total_of_def)

lemma digit_char_values:
  "digit_char 0 = CHR ''0''" "digit_char 5 = CHR ''5''"
  by code_simp+

lemma format_2f_zero: "format_2f 0 = ''0.00''"
  by (simp add: format_2f_def round_half_even_def zfill_def digit_char_values)

lemma format_2f_fifty: "format_2f 50 = ''50.00''"
  by (simp add: format_2f_def round_half_even_def zfill_def digit_char_values)

lemma example_prev_month: "prev_month_date_of e (Some ''2025-10'') = Inr sep_30"
  unfolding sep_30_def by code_simp

lemma example_prev_file: "prev_expenses_file sep_30 = ''data_2025-09/expenses.json''"
  unfolding sep_30_def by code_simp

lemma example_prev_name: "strftime_BY sep_30 = ''September 2025''"
  unfolding sep_30_def by code_simp

lemma calculate_monthly_trend_eq:
  "prev_month_date_of e viewed_month_key = Inr prev_month_date \<Longrightarrow>
   calculate_monthly_trend e folder current_month_total viewed_month_key =
     (case comparison_indicator_of current_month_total (prev_total_of e prev_month_date) of
        Inl err \<Rightarrow> Inl err
      | Inr ind \<Rightarrow>
         (case format_number_2f (prev_total_of e prev_month_date) of
            Inl err \<Rightarrow> Inl err
          | Inr formatted \<Rightarrow> Inr (''$'' @ formatted, strftime_BY prev_month_date, ind)))"
  by (simp add: calculate_monthly_trend_def Let_def)

lemma indicator_none:
  "current_month_total = None \<or> \<not> num_lt (PyInt 0) p
     \<Longrightarrow> comparison_indicator_of current_month_total p = Inr None"
  by (auto simp: comparison_indicator_of_def)

lemma num_lt_values:
  assumes "num_val a = Some x" "num_val b = Some y"
  shows "num_lt a b \<longleftrightarrow> x < y"
  using assms(1)
proof (cases rule: num_val_cases)
  case (1 i)
  from assms(2) show ?thesis by (cases rule: num_val_cases) (use 1 in simp_all)
next
  case 2
  from assms(2) show ?thesis by (cases rule: num_val_cases) (use 2 in simp_all)
qed

lemma num_sub_in_range:
  assumes "num_val a = Some x" "num_val b = Some y"
    and "\<bar>x\<bar> \<le> max_double" "\<bar>y\<bar> \<le> max_double" "\<bar>x - y\<bar> \<le> max_double"
  shows "\<exists>n. num_sub a b = Inr n \<and> num_val n = Some (x - y)"
  using assms(1)
proof (cases rule: num_val_cases)
  case (1 i)
  from assms(2) show ?thesis
  proof (cases rule: num_val_cases)
    case (1 j)
    with \<open>a = PyInt i\<close> \<open>x = real_of_int i\<close> show ?thesis by simp
  next
    case 2
    with \<open>a = PyInt i\<close> \<open>x = real_of_int i\<close> assms(3,5) show ?thesis
      by (simp add: float_of_int_in_range mk_float_in_range)
  qed
next
  case 2
  from assms(2) show ?thesis
  proof (cases rule: num_val_cases)
    case (1 j)
    with \<open>a = PyFloat (Finite x)\<close> assms(4,5) show ?thesis
      by (simp add: float_of_int_in_range mk_float_in_range)
  next
    case 2
    with \<open>a = PyFloat (Finite x)\<close> assms(5) show ?thesis
      by (simp add: mk_float_in_range)
  qed
qed

lemma num_truediv_values:
  assumes "num_val a = Some x" "num_val b = Some y" "y \<noteq> 0"
    and "\<bar>x\<bar> \<le> max_double" "\<bar>y\<bar> \<le> max_double" "\<bar>x / y\<bar> \<le> max_double"
  shows "num_truediv a b = Inr (PyFloat (Finite (x / y)))"
  using assms(1)
proof (cases rule: num_val_cases)
  case (1 i)
  from assms(2) show ?thesis
  proof (cases rule: num_val_cases)
    case (1 j)
    with \<open>a = PyInt i\<close> \<open>x = real_of_int i\<close> assms(3,6) show ?thesis by simp
  next
    case 2
    with \<open>a = PyInt i\<close> \<open>x = real_of_int i\<close> assms(3,4,6) show ?thesis
      by (simp add: float_of_int_in_range mk_float_in_range)
  qed
next
  case 2
  from assms(2) show ?thesis
  proof (cases rule: num_val_cases)
    case (1 j)
    with \<open>a = PyFloat (Finite x)\<close> assms(3,5,6) show ?thesis
      by (simp add: float_of_int_in_range mk_float_in_range)
  next
    case 2
    with \<open>a = PyFloat (Finite x)\<close> assms(3,6) show ?thesis
      by (simp add: mk_float_in_range)
  qed
qed


lemma le_times_100: "0 \<le> (r::real) \<Longrightarrow> r \<le> r * 100"
  by linarith

text \<open>
  The indicator for finite totals \<open>c\<close> and \<open>p\<close> with \<open>0 < p\<close>, when the difference and the
  percentage stay within the doubles.
\<close>

lemma indicator_categories:
  assumes "num_val cur = Some c" "num_val prev = Some p" "0 < p"
    and "\<bar>c\<bar> \<le> max_double" "\<bar>p\<bar> \<le> max_double" "\<bar>c - p\<bar> \<le> max_double"
    and "\<bar>c - p\<bar> / p * 100 \<le> max_double"
  shows "\<exists>i. comparison_indicator_of (Some cur) prev = Inr (Some i)
     \<and> num_val (percentage i) = Some (\<bar>c - p\<bar> / p * 100)
     \<and> 0 \<le> \<bar>c - p\<bar> / p * 100
     \<and> (direction i = ''similar'' \<longleftrightarrow> \<bar>c - p\<bar> / p * 100 < 5)
     \<and> (direction i = ''increase'' \<longleftrightarrow> 5 \<le> \<bar>c - p\<bar> / p * 100 \<and> p < c)
     \<and> (direction i = ''decrease'' \<longleftrightarrow> 5 \<le> \<bar>c - p\<bar> / p * 100 \<and> c < p)
     \<and> (direction i = ''similar'' \<longrightarrow> symbol i = symbol_similar \<and> color i = ''#999999'')
     \<and> (direction i = ''increase'' \<longrightarrow> symbol i = symbol_increase \<and> color i = ''#C00000'')
     \<and> (direction i = ''decrease'' \<longrightarrow> symbol i = symbol_decrease \<and> color i = ''#666666'')"
proof -
  define pct where "pct = \<bar>c - p\<bar> / p * 100"
  define q where "q = (c - p) / p"
  define s where "s = q * 100"
  have nonneg: "0 \<le> pct" using assms(3) by (simp add: pct_def)
  have eq: "c = p \<Longrightarrow> pct = 0" by (simp add: pct_def)
  have "\<bar>q\<bar> = \<bar>c - p\<bar> / \<bar>p\<bar>" by (simp only: q_def abs_divide)
  also have "\<dots> = \<bar>c - p\<bar> / p" using assms(3) by (simp only: abs_of_pos)
  finally have aq: "\<bar>q\<bar> * 100 = pct" by (simp only: pct_def)
  have b: "pct \<le> max_double" using assms(7) by (simp only: pct_def)
  have as: "\<bar>s\<bar> = pct" using aq by (simp only: s_def abs_mult abs_numeral)
  have "0 \<le> \<bar>q\<bar>" by (rule abs_ge_zero)
  with aq b have qb: "\<bar>q\<bar> \<le> max_double" by linarith
  from as b have sb: "\<bar>s\<bar> \<le> max_double" by (simp only:)
  have pos: "num_lt (PyInt 0) prev"
    using num_lt_values[of "PyInt 0" 0 prev p] assms(2,3) by simp
  from num_sub_in_range[OF assms(1,2,4,5,6)] obtain difference where
    d: "num_sub cur prev = Inr difference" "num_val difference = Some (c - p)"
    by blast
  have "num_truediv difference prev = Inr (PyFloat (Finite ((c - p) / p)))"
    by (rule num_truediv_values[OF d(2) assms(2)]) (use assms(3,5,6) qb in \<open>simp_all add: q_def\<close>)
  then have t: "num_truediv difference prev = Inr (PyFloat (Finite q))"
    by (simp only: q_def)
  have "float_of_int 100 = Inr (Finite 100)"
    using max_double_large by (simp add: float_of_int_def)
  then have m: "num_mul (PyFloat (Finite q)) (PyInt 100) = Inr (PyFloat (Finite s))"
    using sb by (simp add: mk_float_in_range s_def)
  have a: "num_abs (PyFloat (Finite s)) = PyFloat (Finite pct)"
    using as by simp
  have lt5: "num_lt (PyFloat (Finite pct)) (PyFloat (Finite 5)) \<longleftrightarrow> pct < 5" by simp
  have inc: "num_lt (PyInt 0) difference \<longleftrightarrow> p < c"
    using num_lt_values[of "PyInt 0" 0 difference "c - p"] d(2) by simp
  have ci: "comparison_indicator_of (Some cur) prev =
      Inr (if pct < 5 then
             Some \<lparr>symbol = symbol_similar, percentage = PyFloat (Finite pct),
                   direction = ''similar'', color = ''#999999''\<rparr>
           else if p < c then
             Some \<lparr>symbol = symbol_increase, percentage = PyFloat (Finite pct),
                   direction = ''increase'', color = ''#C00000''\<rparr>
           else
             Some \<lparr>symbol = symbol_decrease, percentage = PyFloat (Finite pct),
                   direction = ''decrease'', color = ''#666666''\<rparr>)"
    unfolding comparison_indicator_of_def
    by (simp add: pos d(1) t m a lt5 inc Let_def
          del: num_mul.simps num_abs.simps num_lt.simps num_sub.simps num_truediv.simps)
  consider (s) "pct < 5" | (i) "5 \<le> pct" "p < c" | (d) "5 \<le> pct" "c < p"
    using eq by fastforce
  then show ?thesis
  proof cases
    case s
    then show ?thesis unfolding ci pct_def[symmetric] using nonneg by simp
  next
    case i
    then show ?thesis unfolding ci pct_def[symmetric] using nonneg by simp
  next
    case d
    then show ?thesis unfolding ci pct_def[symmetric] using nonneg by simp
  qed
qed


lemma september_total: "prev_total_of september_env sep_30 = PyInt 50"
  by (simp add: prev_total_of_def september_env_def september_files_def example_prev_file
        load_prev_total_def)

lemma example_total: "prev_total_of example_env sep_30 = PyFloat (Finite 0)"
  by (simp add: prev_total_of_def example_env_def no_files_def)





lemma huge_int_total_raises:
  "calculate_monthly_trend huge_int_env ''data_2025-09'' (Some (PyFloat (Finite 100)))
       (Some ''2025-10'') = Inl OverflowError"
proof -
  have t: "prev_total_of huge_int_env sep_30 = PyInt (10 ^ 400)"
    by (simp add: prev_total_of_def huge_int_env_def huge_int_files_def example_prev_file
          load_prev_total_def)
  have "\<not> \<bar>(10::real) ^ 400\<bar> \<le> max_double"
    using max_double_less by simp
  then have "comparison_indicator_of (Some (PyFloat (Finite 100))) (PyInt (10 ^ 400))
      = Inl OverflowError"
    by (simp add: comparison_indicator_of_def float_of_int_def)
  then show ?thesis
    unfolding calculate_monthly_trend_eq[OF example_prev_month] t by simp
qed



lemma filter_expenses_by_date_range_env:
  "filter_expenses_by_date_range e1 expenses s en (Some c)
     = filter_expenses_by_date_range e2 expenses s en (Some c)"
  by (cases en) (simp_all add: filter_expenses_by_date_range_eq)

lemma filter_expenses_by_month_env:
  "filter_expenses_by_month e1 expenses d ef = filter_expenses_by_month e2 expenses d ef"
  unfolding filter_expenses_by_month_def
  by (simp only: filter_expenses_by_date_range_env[of e1 _ _ _ _ e2])

lemma filter_expenses_by_week_env:
  "filter_expenses_by_week e1 expenses d ef = filter_expenses_by_week e2 expenses d ef"
  unfolding filter_expenses_by_week_def
  by (simp only: filter_expenses_by_date_range_env[of e1 _ _ _ _ e2])

lemma filter_past_expenses_env:
  "filter_past_expenses e1 expenses (Some c) = filter_past_expenses e2 expenses (Some c)"
  by (simp add: filter_past_expenses_eq)

lemma prev_month_date_of_env:
  "(viewed_month_key \<noteq> None \<and> viewed_month_key \<noteq> Some []) \<or> now e1 = now e2 \<Longrightarrow>
     prev_month_date_of e1 viewed_month_key = prev_month_date_of e2 viewed_month_key"
  by (auto simp: prev_month_date_of_def)

text \<open>
  Claim C1, as amended. The filters and the calculations over an expense list return the same
  result for the same list and the same explicitly given \<^verbatim>\<open>current_date\<close>, whatever the clock
  and the files are. \<^verbatim>\<open>calculate_monthly_trend\<close> returns the same result for the same current
  month total and month key when, in addition, the previous month's expenses file is the same
  and, for an absent or empty month key, the clock is the same; its folder argument has no
  influence.
\<close>

theorem analytics_depend_on_arguments_and_files:
  "filter_expenses_by_date_range e1 expenses start_date end_date (Some current_date)
     = filter_expenses_by_date_range e2 expenses start_date end_date (Some current_date)
   \<and> filter_expenses_by_month e1 expenses current_date exclude_future
     = filter_expenses_by_month e2 expenses current_date exclude_future
   \<and> filter_expenses_by_week e1 expenses current_date exclude_future
     = filter_expenses_by_week e2 expenses current_date exclude_future
   \<and> filter_past_expenses e1 expenses (Some current_date)
     = filter_past_expenses e2 expenses (Some current_date)
   \<and> calculate_day_progress e1 (Some current_date) = calculate_day_progress e2 (Some current_date)
   \<and> calculate_week_progress e1 (Some current_date)
     = calculate_week_progress e2 (Some current_date)
   \<and> calculate_daily_average e1 expenses (Some current_date)
     = calculate_daily_average e2 expenses (Some current_date)
   \<and> calculate_weekly_average e1 expenses (Some current_date)
     = calculate_weekly_average e2 expenses (Some current_date)
   \<and> calculate_weekly_pace e1 expenses (Some current_date)
     = calculate_weekly_pace e2 expenses (Some current_date)
   \<and> calculate_median_expense e1 expenses (Some current_date)
     = calculate_median_expense e2 expenses (Some current_date)
   \<and> calculate_largest_expense e1 expenses (Some current_date)
     = calculate_largest_expense e2 expenses (Some current_date)
   \<and> (((viewed_month_key \<noteq> None \<and> viewed_month_key \<noteq> Some []) \<or> now e1 = now e2)
        \<and> (\<forall>d. prev_month_date_of e1 viewed_month_key = Inr d
               \<longrightarrow> files e1 (prev_expenses_file d) = files e2 (prev_expenses_file d))
      \<longrightarrow> calculate_monthly_trend e1 folder1 current_month_total viewed_month_key
          = calculate_monthly_trend e2 folder2 current_month_total viewed_month_key)"
proof (intro conjI impI)
  show "filter_expenses_by_date_range e1 expenses start_date end_date (Some current_date)
     = filter_expenses_by_date_range e2 expenses start_date end_date (Some current_date)"
    by (rule filter_expenses_by_date_range_env)
  show "filter_expenses_by_month e1 expenses current_date exclude_future
     = filter_expenses_by_month e2 expenses current_date exclude_future"
    by (rule filter_expenses_by_month_env)
  show "filter_expenses_by_week e1 expenses current_date exclude_future
     = filter_expenses_by_week e2 expenses current_date exclude_future"
    by (rule filter_expenses_by_week_env)
  show "filter_past_expenses e1 expenses (Some current_date)
     = filter_past_expenses e2 expenses (Some current_date)"
    by (rule filter_past_expenses_env)
  show "calculate_day_progress e1 (Some current_date)
     = calculate_day_progress e2 (Some current_date)"
    by (simp add: calculate_day_progress_def)
  show "calculate_week_progress e1 (Some current_date)
     = calculate_week_progress e2 (Some current_date)"
    by (simp add: calculate_week_progress_def)
  show "calculate_daily_average e1 expenses (Some current_date)
     = calculate_daily_average e2 expenses (Some current_date)"
    unfolding calculate_daily_average_def option.case filter_expenses_by_month_env[of e1 _ _ _ e2]
    by (rule refl)
  show "calculate_weekly_average e1 expenses (Some current_date)
     = calculate_weekly_average e2 expenses (Some current_date)"
    unfolding calculate_weekly_average_def option.case filter_expenses_by_month_env[of e1 _ _ _ e2]
    by (rule refl)
  show "calculate_weekly_pace e1 expenses (Some current_date)
     = calculate_weekly_pace e2 expenses (Some current_date)"
    unfolding calculate_weekly_pace_def option.case filter_expenses_by_week_env[of e1 _ _ _ e2]
    by (rule refl)
  show "calculate_median_expense e1 expenses (Some current_date)
     = calculate_median_expense e2 expenses (Some current_date)"
    unfolding calculate_median_expense_def option.case filter_past_expenses_env[of e1 _ _ e2]
    by (rule refl)
  show "calculate_largest_expense e1 expenses (Some current_date)
     = calculate_largest_expense e2 expenses (Some current_date)"
    unfolding calculate_largest_expense_def option.case filter_past_expenses_env[of e1 _ _ e2]
    by (rule refl)
next
  assume a: "((viewed_month_key \<noteq> None \<and> viewed_month_key \<noteq> Some []) \<or> now e1 = now e2)
        \<and> (\<forall>d. prev_month_date_of e1 viewed_month_key = Inr d
               \<longrightarrow> files e1 (prev_expenses_file d) = files e2 (prev_expenses_file d))"
  then have p: "prev_month_date_of e1 viewed_month_key = prev_month_date_of e2 viewed_month_key"
    by (intro prev_month_date_of_env) blast
  show "calculate_monthly_trend e1 folder1 current_month_total viewed_month_key
          = calculate_monthly_trend e2 folder2 current_month_total viewed_month_key"
  proof (cases "prev_month_date_of e1 viewed_month_key")
    case (Inl err)
    moreover from Inl p have "prev_month_date_of e2 viewed_month_key = Inl err" by simp
    ultimately show ?thesis by (simp add: calculate_monthly_trend_def)
  next
    case (Inr d)
    with a have "files e1 (prev_expenses_file d) = files e2 (prev_expenses_file d)" by blast
    then have "prev_total_of e1 d = prev_total_of e2 d" by (simp add: prev_total_of_def)
    moreover from Inr p have "prev_month_date_of e2 viewed_month_key = Inr d" by simp
    ultimately show ?thesis using Inr by (simp add: calculate_monthly_trend_def)
  qed
qed

theorem analytics_depend_on_arguments_and_files_witness:
  "example_env \<noteq> august_env
   \<and> calculate_daily_average example_env example_expenses (Some oct_15)
       = calculate_daily_average august_env example_expenses (Some oct_15)
   \<and> files example_env (prev_expenses_file sep_30) = files august_env (prev_expenses_file sep_30)
   \<and> calculate_monthly_trend example_env ''data_2025-09'' (Some (PyFloat (Finite 100)))
         (Some ''2025-10'')
       = calculate_monthly_trend august_env ''elsewhere'' (Some (PyFloat (Finite 100)))
           (Some ''2025-10'')"
proof -
  have n: "example_env \<noteq> august_env"
    by (simp add: example_env_def august_env_def)
  have f: "files example_env (prev_expenses_file sep_30)
             = files august_env (prev_expenses_file sep_30)"
    by (simp add: example_env_def august_env_def no_files_def august_files_def example_prev_file)
  from analytics_depend_on_arguments_and_files[of example_env example_expenses None None oct_15
      august_env True "Some ''2025-10''" "''data_2025-09''" "Some (PyFloat (Finite 100))" "''elsewhere''"]
    n f
  show ?thesis by (simp add: example_prev_month)
qed

text \<open>
  Claim C1 as stated fails for \<^verbatim>\<open>calculate_monthly_trend\<close>: with the same three arguments
  its result changes with the content of the previous month's expenses file.
\<close>

theorem monthly_trend_reads_files_counterexample:
  "calculate_monthly_trend example_env ''data_2025-09'' (Some (PyFloat (Finite 100)))
       (Some ''2025-10'')
     \<noteq> calculate_monthly_trend september_env ''data_2025-09'' (Some (PyFloat (Finite 100)))
         (Some ''2025-10'')"
proof -
  have "calculate_monthly_trend example_env ''data_2025-09'' (Some (PyFloat (Finite 100)))
       (Some ''2025-10'') = Inr (''$0.00'', ''September 2025'', None)"
    unfolding calculate_monthly_trend_eq[OF example_prev_month] example_total
    by (simp add: indicator_none format_2f_zero example_prev_name)
  moreover have r: "\<bar>100::real\<bar> \<le> max_double" "\<bar>50::real\<bar> \<le> max_double"
    "\<bar>100 - 50 :: real\<bar> \<le> max_double" "\<bar>100 - 50 :: real\<bar> / 50 * 100 \<le> max_double"
    using max_double_large by simp_all
  have "\<exists>i. comparison_indicator_of (Some (PyFloat (Finite 100))) (PyInt 50) = Inr (Some i)"
    using indicator_categories[of "PyFloat (Finite 100)" 100 "PyInt 50" 50, OF _ _ _ r]
    by fastforce
  then obtain i where
    "comparison_indicator_of (Some (PyFloat (Finite 100))) (PyInt 50) = Inr (Some i)"
    by blast
  then have "calculate_monthly_trend september_env ''data_2025-09''
       (Some (PyFloat (Finite 100))) (Some ''2025-10'')
         = Inr (''$50.00'', ''September 2025'', Some i)"
    unfolding calculate_monthly_trend_eq[OF example_prev_month] september_total
    using max_double_large by (simp add: float_of_int_in_range format_2f_fifty example_prev_name)
  ultimately show ?thesis by simp
qed

subsection \<open>The description history\<close>

lemma length_sorted_last_used_reverse [simp]:
  "length (sorted_last_used_reverse xs) = length xs"
  by (simp add: sorted_last_used_reverse_def)

lemma group_loop_regroup:
  "group_loop (length rest) (length finished + length grp) cc (length finished)
       (finished @ grp @ rest) = (gs, ds)
   \<Longrightarrow> take gs ds @ sorted_last_used_reverse (drop gs ds) = regroup finished grp cc rest"
proof (induction rest arbitrary: finished grp cc)
  case Nil
  then show ?case by auto
next
  case (Cons x rest)
  have nth: "(finished @ grp @ x # rest) ! (length finished + length grp) = x"
    by (simp add: nth_append)
  show ?case
  proof (cases "cc = None \<or> cc = Some (count x)")
    case True
    have "group_loop (length rest) (length finished + length (grp @ [x])) (Some (count x))
            (length finished) (finished @ (grp @ [x]) @ rest) = (gs, ds)"
      using Cons.prems True by (auto simp: nth)
    from Cons.IH[OF this] True show ?thesis by auto
  next
    case False
    then obtain c where c: "cc = Some c" "count x \<noteq> c" by auto
    let ?f = "finished @ sorted_last_used_reverse grp"
    have "group_loop (length rest) (length ?f + length [x]) (Some (count x))
            (length ?f) (?f @ [x] @ rest) = (gs, ds)"
      using Cons.prems c by (simp add: nth)
    from Cons.IH[OF this] c show ?thesis by simp
  qed
qed

lemma resort_groups_regroup: "resort_groups ds = regroup [] [] None ds"
  using group_loop_regroup[of ds "[]" "[]" None]
  by (auto simp: resort_groups_def split: prod.splits)

lemma mset_sorted_last_used_reverse [simp]: "mset (sorted_last_used_reverse xs) = mset xs"
  by (simp add: sorted_last_used_reverse_def)

lemma set_sorted_last_used_reverse [simp]: "set (sorted_last_used_reverse xs) = set xs"
  by (simp add: sorted_last_used_reverse_def)

lemma sorted_last_used_reverse_desc:
  "sorted_wrt (\<lambda>a b. last_used b \<le> last_used a) (sorted_last_used_reverse xs)"
proof -
  have "sorted (map last_used (sort_key last_used (rev xs)))" by (rule sorted_sort_key)
  then have "sorted_wrt (\<lambda>a b. last_used a \<le> last_used b) (sort_key last_used (rev xs))"
    by (simp add: sorted_map)
  then show ?thesis
    by (simp add: sorted_last_used_reverse_def sorted_wrt_rev)
qed

lemma sorted_group:
  assumes "\<forall>a\<in>set grp. count a = c"
  shows "sorted_wrt ranked_before (sorted_last_used_reverse grp)"
proof (rule sorted_wrt_mono_rel[OF _ sorted_last_used_reverse_desc])
  fix a b
  assume "a \<in> set (sorted_last_used_reverse grp)" "b \<in> set (sorted_last_used_reverse grp)"
    "last_used b \<le> last_used a"
  with assms show "ranked_before a b" by (simp add: ranked_before_def)
qed

lemma mset_regroup: "mset (regroup finished grp cc rest) = mset finished + mset grp + mset rest"
  by (induction finished grp cc rest rule: regroup.induct) (auto split: option.splits)

lemma regroup_sorted:
  assumes "sorted_wrt ranked_before finished"
    and "\<forall>a\<in>set finished. \<forall>b\<in>set (grp @ rest). count b < count a"
    and "sorted_wrt (\<lambda>a b. count b \<le> count a) (grp @ rest)"
    and "cc = None \<longrightarrow> grp = []"
    and "\<forall>c. cc = Some c \<longrightarrow> (\<forall>a\<in>set grp. count a = c)"
  shows "sorted_wrt ranked_before (regroup finished grp cc rest)"
  using assms
proof (induction rest arbitrary: finished grp cc)
  case Nil
  have "sorted_wrt ranked_before (sorted_last_used_reverse grp)"
  proof (cases cc)
    case None
    with Nil.prems(4) show ?thesis by (simp add: sorted_last_used_reverse_def)
  next
    case (Some c)
    with Nil.prems(5) show ?thesis by (intro sorted_group[of grp c]) simp
  qed
  with Nil.prems(1,2) show ?case
    by (simp add: sorted_wrt_append) (auto simp: ranked_before_def)
next
  case (Cons x rest)
  show ?case
  proof (cases "cc = None \<or> cc = Some (count x)")
    case True
    have "sorted_wrt ranked_before (regroup finished (grp @ [x]) (Some (count x)) rest)"
    proof (rule Cons.IH)
      show "sorted_wrt ranked_before finished" by (rule Cons.prems(1))
      show "\<forall>a\<in>set finished. \<forall>b\<in>set ((grp @ [x]) @ rest). count b < count a"
        using Cons.prems(2) by simp
      show "sorted_wrt (\<lambda>a b. count b \<le> count a) ((grp @ [x]) @ rest)"
        using Cons.prems(3) by simp
      show "Some (count x) = None \<longrightarrow> grp @ [x] = []" by simp
      show "\<forall>c. Some (count x) = Some c \<longrightarrow> (\<forall>a\<in>set (grp @ [x]). count a = c)"
        using True Cons.prems(4,5) by auto
    qed
    with True show ?thesis by auto
  next
    case False
    then obtain c where c: "cc = Some c" "count x \<noteq> c" by auto
    with Cons.prems(5) have grp: "\<forall>a\<in>set grp. count a = c" by simp
    have le: "\<forall>a\<in>set grp. count x \<le> count a"
      using Cons.prems(3) by (auto simp: sorted_wrt_append)
    have "sorted_wrt ranked_before
            (regroup (finished @ sorted_last_used_reverse grp) [x] (Some (count x)) rest)"
    proof (rule Cons.IH)
      show "sorted_wrt ranked_before (finished @ sorted_last_used_reverse grp)"
        using Cons.prems(1,2) sorted_group[OF grp]
        by (simp add: sorted_wrt_append) (auto simp: ranked_before_def)
      show "\<forall>a\<in>set (finished @ sorted_last_used_reverse grp).
              \<forall>b\<in>set ([x] @ rest). count b < count a"
      proof (intro ballI)
        fix a b
        assume a: "a \<in> set (finished @ sorted_last_used_reverse grp)"
          and b: "b \<in> set ([x] @ rest)"
        show "count b < count a"
        proof (cases "a \<in> set finished")
          case True
          with Cons.prems(2) b show ?thesis by auto
        next
          case False
          with a have ag: "a \<in> set grp" by simp
          with grp le c have "count x < count a" by fastforce
          moreover have "count b \<le> count x"
            using b Cons.prems(3) by (auto simp: sorted_wrt_append)
          ultimately show ?thesis by simp
        qed
      qed
      show "sorted_wrt (\<lambda>a b. count b \<le> count a) ([x] @ rest)"
        using Cons.prems(3) by (simp add: sorted_wrt_append)
      show "Some (count x) = None \<longrightarrow> [x] = []" by simp
      show "\<forall>c. Some (count x) = Some c \<longrightarrow> (\<forall>a\<in>set [x]. count a = c)" by simp
    qed
    with c show ?thesis by simp
  qed
qed

lemma sort_key_count_desc:
  "sorted_wrt (\<lambda>a b. count b \<le> count a) (sort_key (\<lambda>x. (- count x, last_used x)) xs)"
proof -
  have "sorted (map (\<lambda>x. (- count x, last_used x)) (sort_key (\<lambda>x. (- count x, last_used x)) xs))"
    by (rule sorted_sort_key)
  then have "sorted_wrt (\<lambda>a b. (- count a, last_used a) \<le> (- count b, last_used b))
      (sort_key (\<lambda>x. (- count x, last_used x)) xs)"
    by (simp add: sorted_map)
  then show ?thesis
    by (rule sorted_wrt_mono_rel[rotated]) (auto simp: less_eq_prod_def)
qed

lemma resort_groups_sorted:
  "sorted_wrt ranked_before (resort_groups (sort_key (\<lambda>x. (- count x, last_used x)) xs))"
  unfolding resort_groups_regroup
  by (rule regroup_sorted) (simp_all add: sort_key_count_desc)

lemma mset_resort_groups [simp]: "mset (resort_groups xs) = mset xs"
  by (simp add: resort_groups_regroup mset_regroup)

lemma strip_empty_iff: "strip s = [] \<longleftrightarrow> list_all is_space s"
proof
  assume "strip s = []"
  then have "dropWhile is_space (rev (dropWhile is_space s)) = []"
    by (simp add: strip_def)
  then have a: "\<forall>x\<in>set (rev (dropWhile is_space s)). is_space x"
    by (simp only: dropWhile_eq_Nil_conv)
  show "list_all is_space s"
  proof (rule ccontr)
    assume "\<not> list_all is_space s"
    then have ne: "dropWhile is_space s \<noteq> []"
      by (simp only: list_all_iff dropWhile_eq_Nil_conv not_False_eq_True)
    then have "\<not> is_space (hd (dropWhile is_space s))" by (rule hd_dropWhile)
    moreover from ne have "hd (dropWhile is_space s) \<in> set (rev (dropWhile is_space s))"
      by simp
    ultimately show False using a by blast
  qed
next
  assume "list_all is_space s"
  then have "dropWhile is_space s = []"
    by (simp only: list_all_iff dropWhile_eq_Nil_conv)
  then show "strip s = []" by (simp only: strip_def rev.simps dropWhile.simps)
qed

lemma map_update_first:
  "(\<And>x. g (f x) = g x) \<Longrightarrow> map g (update_first P f xs) = map g xs"
  by (induction xs) simp_all

lemma distinct_map_mset:
  assumes "mset xs = mset ys"
  shows "distinct (map f xs) \<longleftrightarrow> distinct (map f ys)"
proof -
  from assms have "mset (map f xs) = mset (map f ys)" by simp
  then show ?thesis by (rule mset_eq_imp_distinct_iff)
qed

lemma distinct_map_take: "distinct (map f xs) \<Longrightarrow> distinct (map f (take n xs))"
  by (simp add: take_map[symmetric] del: take_map)

lemma slice_to_take: "\<exists>n. slice_to xs m = take n xs"
  by (auto simp: slice_to_def)

lemma length_slice_to: "0 \<le> m \<Longrightarrow> int (length (slice_to xs m)) \<le> m"
  by (simp add: slice_to_def)

lemma add_or_update_nonblank:
  assumes "strip d \<noteq> []"
  obtains updated where
    "add_or_update e configured ds d a =
       slice_to (resort_groups (sort_key (\<lambda>x. (- count x, last_used x)) updated))
         (max_descriptions_setting configured)"
    "distinct (map (lower \<circ> dtext) ds) \<longrightarrow> distinct (map (lower \<circ> dtext) updated)"
proof (cases "find (\<lambda>x. lower (dtext x) = lower (strip d)) ds")
  case None
  then have "lower (strip d) \<notin> set (map (lower \<circ> dtext) ds)"
    by (auto simp: find_None_iff)
  with None assms show ?thesis
    by (intro that[of "ds @ [\<lparr>dtext = strip d, count = 1, last_used = strftime_ymd (now e),
                                last_amount = a\<rparr>]"])
       (simp_all add: add_or_update_def Let_def)
next
  case (Some existing)
  let ?u = "update_first (\<lambda>x. lower (dtext x) = lower (strip d))
             (\<lambda>x. x\<lparr>count := count x + 1, last_used := strftime_ymd (now e), last_amount := a\<rparr>) ds"
  have "map (lower \<circ> dtext) ?u = map (lower \<circ> dtext) ds"
    by (rule map_update_first) simp
  with Some assms show ?thesis
    by (intro that[of ?u]) (simp_all add: add_or_update_def Let_def)
qed

text \<open>
  Claim C10, as amended. A blank (whitespace-only) description leaves the list unchanged.
  After a call of \<^verbatim>\<open>add_or_update\<close> with any other description, the list is sorted by usage
  count descending, ties broken by \<^verbatim>\<open>last_used\<close> descending; if the list had at most one
  entry per case-insensitive description text before the call, it has so after it; and if
  the configured limit is not negative, the length of the list does not exceed it. The
  limit is 50 when none is configured.
\<close>

theorem add_or_update_keeps_history_ranked:
  "(list_all is_space d \<longrightarrow> add_or_update e configured ds d a = ds)
   \<and> (\<not> list_all is_space d \<longrightarrow>
        sorted_wrt ranked_before (add_or_update e configured ds d a)
        \<and> (distinct (map (lower \<circ> dtext) ds)
             \<longrightarrow> distinct (map (lower \<circ> dtext) (add_or_update e configured ds d a)))
        \<and> (0 \<le> max_descriptions_setting configured
             \<longrightarrow> int (length (add_or_update e configured ds d a))
                   \<le> max_descriptions_setting configured))
   \<and> max_descriptions_setting None = 50"
proof (intro conjI impI)
  assume "list_all is_space d"
  then show "add_or_update e configured ds d a = ds"
    by (simp add: add_or_update_def strip_empty_iff)
next
  show "max_descriptions_setting None = 50" by (simp add: max_descriptions_setting_def)
next
  assume "\<not> list_all is_space d"
  then have "strip d \<noteq> []" by (simp add: strip_empty_iff)
  then obtain updated where
    u: "add_or_update e configured ds d a =
           slice_to (resort_groups (sort_key (\<lambda>x. (- count x, last_used x)) updated))
             (max_descriptions_setting configured)"
    and dist: "distinct (map (lower \<circ> dtext) ds) \<longrightarrow> distinct (map (lower \<circ> dtext) updated)"
    by (rule add_or_update_nonblank)
  let ?s = "resort_groups (sort_key (\<lambda>x. (- count x, last_used x)) updated)"
  obtain n where n: "slice_to ?s (max_descriptions_setting configured) = take n ?s"
    using slice_to_take by blast
  show "sorted_wrt ranked_before (add_or_update e configured ds d a)"
    unfolding u n by (rule sorted_wrt_take) (rule resort_groups_sorted)
  show "int (length (add_or_update e configured ds d a)) \<le> max_descriptions_setting configured"
    if "0 \<le> max_descriptions_setting configured"
    unfolding u using that by (rule length_slice_to)
  show "distinct (map (lower \<circ> dtext) (add_or_update e configured ds d a))"
    if "distinct (map (lower \<circ> dtext) ds)"
  proof -
    from that dist have "distinct (map (lower \<circ> dtext) updated)" by blast
    moreover have "mset ?s = mset updated" by simp
    ultimately have "distinct (map (lower \<circ> dtext) ?s)"
      using distinct_map_mset by blast
    then show ?thesis unfolding u n by (rule distinct_map_take)
  qed
qed

lemma example_update:
  "add_or_update example_env (Some 2) [coffee_entry, tea_entry] '' tea '' 5 =
     [\<lparr>dtext = ''Tea'', count = 3, last_used = ''2025-10-27'', last_amount = 5\<rparr>, coffee_entry]"
  by code_simp

theorem add_or_update_keeps_history_ranked_witness:
  "\<not> list_all is_space '' tea ''
   \<and> distinct (map (lower \<circ> dtext) [coffee_entry, tea_entry])
   \<and> 0 \<le> max_descriptions_setting (Some 2)
   \<and> sorted_wrt ranked_before
        [\<lparr>dtext = ''Tea'', count = 3, last_used = ''2025-10-27'', last_amount = 5\<rparr>,
         coffee_entry]
   \<and> distinct (map (lower \<circ> dtext)
        [\<lparr>dtext = ''Tea'', count = 3, last_used = ''2025-10-27'', last_amount = 5\<rparr>,
         coffee_entry])
   \<and> add_or_update example_env (Some 2) [coffee_entry, tea_entry] [] 5
        = [coffee_entry, tea_entry]"
proof -
  have b: "\<not> list_all is_space '' tea ''" by code_simp
  have d: "distinct (map (lower \<circ> dtext) [coffee_entry, tea_entry])" by code_simp
  have m: "0 \<le> max_descriptions_setting (Some 2)" by (simp add: max_descriptions_setting_def)
  from add_or_update_keeps_history_ranked[of "'' tea ''" example_env "Some 2"
      "[coffee_entry, tea_entry]" 5] b d m
  have "sorted_wrt ranked_before
          (add_or_update example_env (Some 2) [coffee_entry, tea_entry] '' tea '' 5)
      \<and> distinct (map (lower \<circ> dtext)
          (add_or_update example_env (Some 2) [coffee_entry, tea_entry] '' tea '' 5))"
    by blast
  moreover from add_or_update_keeps_history_ranked[of "[]" example_env "Some 2"
      "[coffee_entry, tea_entry]" 5]
  have "add_or_update example_env (Some 2) [coffee_entry, tea_entry] [] 5
          = [coffee_entry, tea_entry]"
    by simp
  ultimately show ?thesis using b d m unfolding example_update by blast
qed

lemma negative_limit_drops_last:
  "add_or_update example_env (Some (- 1)) [coffee_entry] ''Tea'' 4 = [coffee_entry]"
  by code_simp

text \<open>
  Claim C10 as stated fails for a negative configured limit: \<^verbatim>\<open>descriptions[:-1]\<close> drops the
  last entry, and the one entry that is left is more than the limit \<open>-1\<close>.
\<close>

theorem negative_limit_counterexample:
  "add_or_update example_env (Some (- 1)) [coffee_entry] ''Tea'' 4 = [coffee_entry]
   \<and> \<not> int (length (add_or_update example_env (Some (- 1)) [coffee_entry] ''Tea'' 4))
         \<le> max_descriptions_setting (Some (- 1))"
  by (simp add: negative_limit_drops_last max_descriptions_setting_def)


end
